theory Spec2Isabelle
  imports Main "HOL-Library.Word"
begin

unbundle bit_operations_syntax

section \<open>Data model of \<^verbatim>\<open>src/main.c\<close>\<close>

text \<open>
  The program is compiled for an LP64 target: \<^verbatim>\<open>size_t\<close>, \<^verbatim>\<open>uintptr_t\<close> and
  every pointer are 64-bit unsigned machine words, all arithmetic on them wraps modulo
  \<open>2 ^ 64\<close>. One type \<open>addr\<close> stands for the three of them. \<^verbatim>\<open>NULL\<close> is the word
  \<open>0\<close>, \<^verbatim>\<open>MAP_FAILED\<close> is \<^verbatim>\<open>(void *) -1\<close>, and \<^verbatim>\<open>sizeof(region_t)\<close> is four
  8-byte fields.
\<close>

type_synonym addr = "64 word"

definition NULL :: addr where
  "NULL = 0"

definition MAP_FAILED :: addr where
  "MAP_FAILED = - 1"

definition sizeof_region_t :: addr where
  "sizeof_region_t = 32"

text \<open>
  \<^verbatim>\<open>struct region_t { region_t *next; size_t cap; uintptr_t free; uintptr_t begin; }\<close>.
  The fields \<^verbatim>\<open>next\<close> and \<^verbatim>\<open>begin\<close> are spelled \<open>next_r\<close> and \<open>begin_r\<close>, the C names
  being reserved words of the theory language.
\<close>

record region_t =
  next_r :: addr
  cap :: addr
  free :: addr
  begin_r :: addr

text \<open>
  \<^verbatim>\<open>struct arena_t { region_t *start; region_t *current; size_t region_size;
  size_t region_count; }\<close>.
\<close>

record arena_t =
  start :: addr
  current :: addr
  region_size :: addr
  region_count :: addr

text \<open>
  The region headers live in mapped memory. The store maps the address of a mapped
  header to its contents; an address outside the domain of the store is unmapped, and
  dereferencing it ends the process.
\<close>

type_synonym heap = "addr \<rightharpoonup> region_t"

datatype failure = SegFault | AssertFailed

section \<open>Region operations\<close>

text \<open>
  \<^verbatim>\<open>#define align_up(addr, align) ((addr) + ((align - 1)) & ~((align - 1)))\<close>.
  In C the binary \<^verbatim>\<open>+\<close> binds tighter than \<^verbatim>\<open>&\<close>, so the macro adds first and masks
  afterwards.
\<close>

definition align_up :: "addr \<Rightarrow> addr \<Rightarrow> addr" where
  "align_up a align = (a + (align - 1)) AND NOT (align - 1)"

text \<open>\<^verbatim>\<open>region_init\<close> assigns all four fields of the header.\<close>

definition region_init :: "addr \<Rightarrow> addr \<Rightarrow> region_t" where
  "region_init c buf = \<lparr>next_r = NULL, cap = c, free = buf, begin_r = buf\<rparr>"

text \<open>
  \<^verbatim>\<open>region_alloc\<close> returns the pointer and updates the header in place. The result
  \<open>None\<close> is the statement \<^verbatim>\<open>return NULL\<close>, the result \<open>Some p\<close> is the statement
  \<^verbatim>\<open>return (void *)start\<close>; the second component is the header after the call.
\<close>

definition region_alloc :: "region_t \<Rightarrow> addr \<Rightarrow> addr \<Rightarrow> addr option \<times> region_t" where
  "region_alloc region sz align =
     (let start = align_up (free region) align in
      if start + sz > begin_r region + cap region then (None, region)
      else
        let offset = start - free region in
        (Some start, region\<lparr>free := free region + offset + sz\<rparr>))"

definition region_has_space :: "region_t \<Rightarrow> addr \<Rightarrow> addr \<Rightarrow> bool" where
  "region_has_space region sz align =
     (let start = align_up (free region) align in
      if start + sz > begin_r region + cap region then False
      else True)"

text \<open>\<^verbatim>\<open>region_release\<close> unmaps the block that starts with the header.\<close>

definition region_release :: "heap \<Rightarrow> addr \<Rightarrow> addr \<Rightarrow> heap" where
  "region_release h region sz = h(region := None)"

text \<open>The value a C caller sees for a result of the model.\<close>

definition ptr_of :: "addr option \<Rightarrow> addr" where
  "ptr_of p = (case p of None \<Rightarrow> NULL | Some a \<Rightarrow> a)"

section \<open>Arena operations\<close>

text \<open>
  \<^verbatim>\<open>mmap\<close> belongs to the operating system. The address it returns is the argument
  \<open>page\<close> of the model; the value \<open>MAP_FAILED\<close> makes the assertion of
  \<^verbatim>\<open>alloc_new_region\<close> fail, which ends the process. The header is written to the
  first bytes of the block.
\<close>

definition alloc_new_region :: "addr \<Rightarrow> addr \<Rightarrow> heap \<Rightarrow> failure + (addr \<times> heap)" where
  "alloc_new_region page sz h =
     (if page = MAP_FAILED then Inl AssertFailed
      else
        let region = page;
            start = page + sizeof_region_t;
            offset = start - page in
        Inr (region, h(region \<mapsto> region_init (sz - offset) start)))"

definition arena_init :: "addr \<Rightarrow> arena_t \<times> heap \<Rightarrow> addr \<Rightarrow> failure + (arena_t \<times> heap)" where
  "arena_init page s rs =
     (case s of (a, h) \<Rightarrow>
        let a1 = a\<lparr>region_size := rs\<rparr> in
        (case alloc_new_region page (region_size a1) h of
           Inl e \<Rightarrow> Inl e
         | Inr (region, h1) \<Rightarrow>
             Inr (a1\<lparr>start := region, current := region, region_count := 1\<rparr>, h1)))"

text \<open>
  \<^verbatim>\<open>arena_alloc\<close>: the two guards, the allocation in the current region, and the
  growth path. \<open>page\<close> is what \<^verbatim>\<open>mmap\<close> returns if the growth path calls it.
\<close>

definition arena_alloc ::
  "addr \<Rightarrow> arena_t \<times> heap \<Rightarrow> addr \<Rightarrow> addr \<Rightarrow> failure + (addr option \<times> arena_t \<times> heap)" where
  "arena_alloc page s sz align =
     (case s of (a, h) \<Rightarrow>
        if current a = NULL then Inr (None, a, h)
        else if sz > region_size a - sizeof_region_t then Inr (None, a, h)
        else
          (case h (current a) of
             None \<Rightarrow> Inl SegFault
           | Some cur \<Rightarrow>
               if region_has_space cur sz align then
                 (case region_alloc cur sz align of
                    (p, cur') \<Rightarrow> Inr (p, a, h(current a \<mapsto> cur')))
               else
                 (case alloc_new_region page (region_size a) h of
                    Inl e \<Rightarrow> Inl e
                  | Inr (next_region, h1) \<Rightarrow>
                      (case h1 (current a) of
                         None \<Rightarrow> Inl SegFault
                       | Some c \<Rightarrow>
                           let h2 = h1(current a \<mapsto> c\<lparr>next_r := next_region\<rparr>);
                               a1 = a\<lparr>current := next_region\<rparr>;
                               a2 = a1\<lparr>region_count := region_count a1 + 1\<rparr> in
                           (case h2 (current a2) of
                              None \<Rightarrow> Inl SegFault
                            | Some nr \<Rightarrow>
                                (case region_alloc nr sz align of
                                   (p, nr') \<Rightarrow> Inr (p, a2, h2(current a2 \<mapsto> nr'))))))))"

text \<open>
  The loop of \<^verbatim>\<open>arena_release\<close>. It reads \<^verbatim>\<open>ptr->next\<close> and then unmaps the
  block, so each round removes one header from the store and the loop ends.
\<close>

function arena_release_loop :: "heap \<Rightarrow> addr \<Rightarrow> addr \<Rightarrow> failure + heap" where
  "arena_release_loop h ptr rs =
     (if ptr = NULL then Inr h
      else
        (case h ptr of
           None \<Rightarrow> Inl SegFault
         | Some r \<Rightarrow> arena_release_loop (region_release h ptr rs) (next_r r) rs))"
  by pat_completeness auto
termination
proof (relation "measure (\<lambda>(h, ptr, rs). card (dom h))")
  show "wf (measure (\<lambda>(h :: heap, ptr :: addr, rs :: addr). card (dom h)))"
    by simp
next
  fix h :: heap and ptr rs :: addr and r :: region_t
  assume "h ptr = Some r"
  then have "ptr \<in> dom h"
    by auto
  moreover have "finite (dom h)"
    by simp
  ultimately have "card (dom h - {ptr}) < card (dom h)"
    by (intro card_Diff1_less)
  then show "((region_release h ptr rs, next_r r, rs), (h, ptr, rs))
      \<in> measure (\<lambda>(h, ptr, rs). card (dom h))"
    by (simp add: region_release_def)
qed

definition arena_release :: "arena_t \<times> heap \<Rightarrow> failure + (arena_t \<times> heap)" where
  "arena_release s =
     (case s of (a, h) \<Rightarrow>
        (case arena_release_loop h (start a) (region_size a) of
           Inl e \<Rightarrow> Inl e
         | Inr h' \<Rightarrow> Inr (a\<lparr>start := NULL, current := NULL, region_count := 0\<rparr>, h')))"

section \<open>Sequences of calls\<close>

text \<open>
  A caller that issues one request after the other. \<open>alloc_seq\<close> runs the requests
  \<open>(size, align)\<close> on one region and lists the blocks \<open>(address, size)\<close> of the
  calls that returned a pointer, in call order. \<open>arena_alloc_seq\<close> runs requests on an
  arena; each request carries the address \<^verbatim>\<open>mmap\<close> would return during that call.
\<close>

fun alloc_seq :: "region_t \<Rightarrow> (addr \<times> addr) list \<Rightarrow> (addr \<times> addr) list" where
  "alloc_seq r [] = []"
| "alloc_seq r ((sz, align) # reqs) =
     (case region_alloc r sz align of
        (None, r') \<Rightarrow> alloc_seq r' reqs
      | (Some p, r') \<Rightarrow> (p, sz) # alloc_seq r' reqs)"

fun arena_alloc_seq ::
  "arena_t \<times> heap \<Rightarrow> (addr \<times> addr \<times> addr) list \<Rightarrow>
   failure + (addr option list \<times> arena_t \<times> heap)" where
  "arena_alloc_seq s [] = Inr ([], s)"
| "arena_alloc_seq s ((page, sz, align) # reqs) =
     (case arena_alloc page s sz align of
        Inl e \<Rightarrow> Inl e
      | Inr (p, s') \<Rightarrow>
          (case arena_alloc_seq s' reqs of
             Inl e \<Rightarrow> Inl e
           | Inr (ps, s'') \<Rightarrow> Inr (p # ps, s'')))"

section \<open>Well-formed requests, regions and arenas\<close>

text \<open>The alignments the macro \<^verbatim>\<open>align_up\<close> is written for.\<close>

definition is_pow2 :: "addr \<Rightarrow> bool" where
  "is_pow2 align \<longleftrightarrow> (\<exists>k \<in> {0..<64}. align = 2 ^ k)"

text \<open>
  A region over a real block of memory: the block does not start at the null address,
  it lies in the lower half of the address space (where the operating systems this
  program runs on place every user mapping and every stack), and the cursor is inside
  the block or at its end.
\<close>

definition valid_region :: "region_t \<Rightarrow> bool" where
  "valid_region r \<longleftrightarrow>
     begin_r r \<noteq> NULL \<and>
     unat (begin_r r) + unat (cap r) \<le> 2 ^ 63 \<and>
     unat (begin_r r) \<le> unat (free r) \<and>
     unat (free r) \<le> unat (begin_r r) + unat (cap r)"

text \<open>
  What a successful \<^verbatim>\<open>mmap(NULL, sz, ...)\<close> returns: neither \<^verbatim>\<open>MAP_FAILED\<close> nor the
  null address, a block that was not mapped before, in the lower half of the address
  space.
\<close>

definition mmap_ok :: "addr \<Rightarrow> addr \<Rightarrow> heap \<Rightarrow> bool" where
  "mmap_ok page sz h \<longleftrightarrow>
     page \<noteq> MAP_FAILED \<and> page \<noteq> NULL \<and> h page = None \<and>
     unat page + unat sz \<le> 2 ^ 63"

text \<open>The header that \<^verbatim>\<open>alloc_new_region\<close> writes at \<open>page\<close>.\<close>

definition fresh_region :: "addr \<Rightarrow> addr \<Rightarrow> region_t" where
  "fresh_region page rs = region_init (rs - sizeof_region_t) (page + sizeof_region_t)"

text \<open>
  \<open>chain h p ps\<close>: following \<^verbatim>\<open>next\<close> from \<open>p\<close> visits exactly the headers \<open>ps\<close> and
  then reaches \<^verbatim>\<open>NULL\<close>.
\<close>

fun chain :: "heap \<Rightarrow> addr \<Rightarrow> addr list \<Rightarrow> bool" where
  "chain h p [] \<longleftrightarrow> p = NULL"
| "chain h p (q # qs) \<longleftrightarrow>
     p = q \<and> p \<noteq> NULL \<and> (case h p of None \<Rightarrow> False | Some r \<Rightarrow> chain h (next_r r) qs)"

text \<open>A region of an arena with region size \<open>rs\<close> whose header is at \<open>q\<close>.\<close>

definition region_of :: "addr \<Rightarrow> addr \<Rightarrow> region_t \<Rightarrow> bool" where
  "region_of rs q r \<longleftrightarrow>
     valid_region r \<and> begin_r r = q + sizeof_region_t \<and> cap r = rs - sizeof_region_t"

text \<open>
  An open arena whose chain is \<open>ps\<close>: the chain starts at \<^verbatim>\<open>start\<close>, has no repetition,
  ends in \<^verbatim>\<open>current\<close>, \<^verbatim>\<open>region_count\<close> is its length, and every header on it is a valid
  region of the arena. A closed arena is what \<^verbatim>\<open>arena_release\<close> leaves.
\<close>

definition arena_open :: "arena_t \<times> heap \<Rightarrow> addr list \<Rightarrow> bool" where
  "arena_open s ps \<longleftrightarrow>
     (case s of (a, h) \<Rightarrow>
        ps \<noteq> [] \<and> chain h (start a) ps \<and> distinct ps \<and> last ps = current a \<and>
        region_count a = of_nat (length ps) \<and>
        (\<forall>q \<in> set ps. case h q of None \<Rightarrow> False | Some r \<Rightarrow> region_of (region_size a) q r))"

definition arena_closed :: "arena_t \<Rightarrow> bool" where
  "arena_closed a \<longleftrightarrow> start a = NULL \<and> current a = NULL \<and> region_count a = 0"

definition arena_inv :: "arena_t \<times> heap \<Rightarrow> bool" where
  "arena_inv s \<longleftrightarrow>
     sizeof_region_t \<le> region_size (fst s) \<and> unat (region_size (fst s)) \<le> 2 ^ 63 \<and>
     (arena_closed (fst s) \<or> (\<exists>ps. arena_open s ps))"

text \<open>
  The arena states a program reaches through the three arena functions, when the
  region size is at least the size of the header, \<^verbatim>\<open>mmap\<close> succeeds, and every
  alignment passed to \<^verbatim>\<open>arena_alloc\<close> is a power of two.
\<close>

inductive reachable :: "arena_t \<times> heap \<Rightarrow> bool" where
  init: "mmap_ok page rs h0 \<Longrightarrow> sizeof_region_t \<le> rs \<Longrightarrow>
         arena_init page (a0, h0) rs = Inr s \<Longrightarrow> reachable s"
| alloc: "reachable s \<Longrightarrow> mmap_ok page (region_size (fst s)) (snd s) \<Longrightarrow> is_pow2 align \<Longrightarrow>
         arena_alloc page s sz align = Inr (p, s') \<Longrightarrow> reachable s'"
| release: "reachable s \<Longrightarrow> arena_release s = Inr s' \<Longrightarrow> reachable s'"

section \<open>The states of the self-tests\<close>

text \<open>
  \<^verbatim>\<open>test_region\<close> initialises a region over a 10-byte buffer; \<open>test_region_state\<close> is
  that region, with \<open>0x1000\<close> for the address of the buffer. \<^verbatim>\<open>test_arena\<close>
  initialises an arena with \<^verbatim>\<open>sizeof(region_t) + 8\<close> bytes per region;
  \<open>test_arena_state\<close> is the state after \<^verbatim>\<open>arena_init\<close> when \<^verbatim>\<open>mmap\<close> returned
  \<open>0x10000\<close>, and \<open>blank_arena\<close> is the \<^verbatim>\<open>arena_t\<close> before the call.
\<close>

definition test_region_state :: region_t where
  "test_region_state = \<lparr>next_r = 0, cap = 10, free = 0x1000, begin_r = 0x1000\<rparr>"

definition blank_arena :: arena_t where
  "blank_arena = \<lparr>start = 0, current = 0, region_size = 0, region_count = 0\<rparr>"

definition test_arena_state :: "arena_t \<times> heap" where
  "test_arena_state =
     (\<lparr>start = 0x10000, current = 0x10000, region_size = 40, region_count = 1\<rparr>,
      [0x10000 \<mapsto> \<lparr>next_r = 0, cap = 8, free = 0x10020, begin_r = 0x10020\<rparr>])"

section \<open>Two states outside the valid ones\<close>

text \<open>
  \<open>small_arena_state\<close> is the state after \<^verbatim>\<open>arena_init(&a, 16)\<close> when \<^verbatim>\<open>mmap\<close>
  returned \<open>0x10000\<close>: the region size is below \<^verbatim>\<open>sizeof(region_t)\<close>, so the capacity
  \<^verbatim>\<open>size - offset\<close> that \<^verbatim>\<open>alloc_new_region\<close> computes wraps around to \<open>2 ^ 64 - 16\<close>;
  \<open>small_region_state\<close> is its one header. \<open>null_cursor_state\<close> is the region of
  \<^verbatim>\<open>test_region\<close> after \<^verbatim>\<open>region_alloc(&region, 2^64 - 0x1000, 1)\<close>, which leaves the
  cursor at address 0.
\<close>

definition small_region_state :: region_t where
  "small_region_state = \<lparr>next_r = 0, cap = - 16, free = 0x10020, begin_r = 0x10020\<rparr>"

definition small_arena_state :: "arena_t \<times> heap" where
  "small_arena_state =
     (\<lparr>start = 0x10000, current = 0x10000, region_size = 16, region_count = 1\<rparr>,
      [0x10000 \<mapsto> small_region_state])"

definition null_cursor_state :: region_t where
  "null_cursor_state = \<lparr>next_r = 0, cap = 10, free = 0, begin_r = 0x1000\<rparr>"

section \<open>Rounding up to a power of two\<close>

lemma unat_lt_2p64: "unat (w :: addr) < 2 ^ 64"
  using unsigned_less [of w, where 'a = nat] by simp

lemma and_not_mask_unat:
  "unat ((w :: addr) AND NOT (mask k)) = (unat w div 2 ^ k) * 2 ^ k"
proof -
  have "w AND NOT (mask k) = push_bit k (drop_bit k w)"
    by (rule bit_word_eqI) (auto simp: bit_simps)
  then have "unat (w AND NOT (mask k)) = unat (push_bit k (drop_bit k w))"
    by (rule arg_cong)
  also have "\<dots> = take_bit 64 (push_bit k (unat (drop_bit k w)))"
    by (simp only: unsigned_push_bit_eq len_num1 len_bit0 mult_1_right) simp
  also have "unat (drop_bit k w) = drop_bit k (unat w)"
    by (rule unat_drop_bit_eq)
  also have "push_bit k (drop_bit k (unat w)) = (unat w div 2 ^ k) * 2 ^ k"
    by (simp add: push_bit_eq_mult drop_bit_eq_div)
  also have "take_bit 64 ((unat w div 2 ^ k) * 2 ^ k) = (unat w div 2 ^ k) * 2 ^ k"
  proof (rule take_bit_nat_eq_self)
    have "(unat w div 2 ^ k) * 2 ^ k \<le> unat w"
      by simp
    then show "(unat w div 2 ^ k) * 2 ^ k < 2 ^ 64"
      using unat_lt_2p64 [of w] by (rule le_less_trans)
  qed
  finally show ?thesis .
qed

lemma pow2_lt_2p64:
  assumes "k < 64"
  shows "(2 :: nat) ^ k < 2 ^ 64"
  using assms by (intro power_strict_increasing) simp_all

lemma unat_pow2:
  assumes "k < 64"
  shows "unat ((2 :: addr) ^ k) = 2 ^ k"
proof -
  have "unat (word_of_nat (2 ^ k) :: addr) = 2 ^ k mod 2 ^ 64"
    by (simp only: unat_of_nat len_num1 len_bit0 mult_1_right) simp
  then show ?thesis
    using pow2_lt_2p64 [OF assms] by simp
qed

lemma unat_pow2_minus_1:
  assumes "k < 64"
  shows "unat ((2 :: addr) ^ k - 1) = 2 ^ k - 1"
proof -
  have "(1 :: addr) \<le> 2 ^ k"
    using assms unat_pow2 [OF assms] by (simp add: word_le_nat_alt)
  then show ?thesis
    using unat_pow2 [OF assms] by (simp add: unat_sub)
qed

lemma align_up_pow2_unat:
  assumes "k < 64" and "unat a + 2 ^ k \<le> 2 ^ 64"
  shows "unat (align_up a (2 ^ k)) = ((unat a + 2 ^ k - 1) div 2 ^ k) * 2 ^ k"
proof -
  have m: "(2 :: addr) ^ k - 1 = mask k"
    by (simp add: mask_eq_decr_exp)
  have "unat (mask k :: addr) = 2 ^ k - 1"
    using unat_pow2_minus_1 [OF assms(1)] by (simp add: m)
  moreover have "unat a + (2 ^ k - 1) < 2 ^ 64"
    using assms(2) by simp
  ultimately have "unat (a + mask k) = unat a + 2 ^ k - 1"
    using unat_add_lem [of a "mask k"] by simp
  then show ?thesis
    by (simp add: align_up_def m and_not_mask_unat)
qed

lemma round_up_nat:
  fixes x :: nat
  assumes "0 < d"
  shows "x \<le> ((x + d - 1) div d) * d"
    and "((x + d - 1) div d) * d < x + d"
    and "((x + d - 1) div d) * d mod d = 0"
proof -
  have "(x + d - 1) div d * d = (x + d - 1) - (x + d - 1) mod d"
    by (simp add: minus_mod_eq_div_mult)
  moreover have "(x + d - 1) mod d < d"
    using assms by simp
  ultimately show "x \<le> ((x + d - 1) div d) * d"
    using assms by linarith
  show "((x + d - 1) div d) * d < x + d"
    using assms \<open>(x + d - 1) div d * d = (x + d - 1) - (x + d - 1) mod d\<close> by linarith
  show "((x + d - 1) div d) * d mod d = 0"
    by simp
qed

lemma round_up_nat_le:
  fixes x :: nat
  assumes "0 < d" and "x \<le> d * m"
  shows "((x + d - 1) div d) * d \<le> d * m"
proof -
  have "x + d - 1 < d * m + d"
    using assms by linarith
  then have "(x + d - 1) div d < m + 1"
    using assms(1) by (simp add: less_mult_imp_div_less mult.commute)
  then have "(x + d - 1) div d \<le> m"
    by simp
  then show ?thesis
    by (simp add: mult.commute)
qed

lemma pow2_le_2p63:
  assumes "k < 64"
  shows "\<exists>m. (2 :: nat) ^ 63 = 2 ^ k * m"
proof -
  have "(2 :: nat) ^ 63 = 2 ^ (k + (63 - k))"
    using assms by simp
  then show ?thesis
    by (metis power_add)
qed

lemma align_up_valid:
  assumes "k < 64" and "unat a \<le> 2 ^ 63"
  shows "unat a \<le> unat (align_up a (2 ^ k))"
    and "unat (align_up a (2 ^ k)) < unat a + 2 ^ k"
    and "unat (align_up a (2 ^ k)) mod 2 ^ k = 0"
    and "unat (align_up a (2 ^ k)) \<le> 2 ^ 63"
proof -
  obtain m where m: "(2 :: nat) ^ 63 = 2 ^ k * m"
    using pow2_le_2p63 [OF assms(1)] by blast
  have "(2 :: nat) ^ k \<le> 2 ^ 63"
    using assms(1) by (intro power_increasing) simp_all
  then have "unat a + 2 ^ k \<le> 2 ^ 64"
    using assms(2) by simp
  then have u: "unat (align_up a (2 ^ k)) = ((unat a + 2 ^ k - 1) div 2 ^ k) * 2 ^ k"
    by (rule align_up_pow2_unat [OF assms(1)])
  have pos: "(0 :: nat) < 2 ^ k"
    by simp
  show "unat a \<le> unat (align_up a (2 ^ k))"
    unfolding u by (rule round_up_nat(1) [OF pos])
  show "unat (align_up a (2 ^ k)) < unat a + 2 ^ k"
    unfolding u by (rule round_up_nat(2) [OF pos])
  show "unat (align_up a (2 ^ k)) mod 2 ^ k = 0"
    unfolding u by (rule round_up_nat(3) [OF pos])
  have "unat a \<le> 2 ^ k * m"
    using assms(2) m by simp
  then have "((unat a + 2 ^ k - 1) div 2 ^ k) * 2 ^ k \<le> 2 ^ k * m"
    by (rule round_up_nat_le [OF pos])
  then show "unat (align_up a (2 ^ k)) \<le> 2 ^ 63"
    unfolding u m .
qed

section \<open>One allocation in a valid region\<close>

lemma region_alloc_fields:
  "begin_r (snd (region_alloc r sz align)) = begin_r r"
  "cap (snd (region_alloc r sz align)) = cap r"
  "next_r (snd (region_alloc r sz align)) = next_r r"
  by (simp_all add: region_alloc_def Let_def)

lemma region_alloc_None:
  "fst (region_alloc r sz align) = None \<Longrightarrow> snd (region_alloc r sz align) = r"
  by (simp add: region_alloc_def Let_def split: if_splits)

lemma region_alloc_SomeD:
  assumes "region_alloc r sz align = (Some p, r')"
  shows "p = align_up (free r) align"
    and "p + sz \<le> begin_r r + cap r"
    and "r' = r\<lparr>free := p + sz\<rparr>"
  using assms by (auto simp: region_alloc_def Let_def split: if_splits)

lemma unat_end_region:
  assumes "valid_region r"
  shows "unat (begin_r r + cap r) = unat (begin_r r) + unat (cap r)"
proof -
  have "unat (begin_r r) + unat (cap r) < 2 ^ 64"
    using assms by (simp add: valid_region_def)
  then show ?thesis
    using unat_add_lem [of "begin_r r" "cap r"] by simp
qed

lemma region_alloc_valid:
  assumes v: "valid_region r" and k: "k < 64" and sz: "unat sz < 2 ^ 63"
    and ra: "region_alloc r sz (2 ^ k) = (Some p, r')"
  shows "unat (free r) \<le> unat p"
    and "unat p mod 2 ^ k = 0"
    and "unat p + unat sz \<le> unat (begin_r r) + unat (cap r)"
    and "unat (free r') = unat p + unat sz"
proof -
  note d = region_alloc_SomeD [OF ra]
  have f: "unat (free r) \<le> 2 ^ 63"
    using v by (simp add: valid_region_def)
  show "unat (free r) \<le> unat p"
    unfolding d(1) by (rule align_up_valid(1) [OF k f])
  show "unat p mod 2 ^ k = 0"
    unfolding d(1) by (rule align_up_valid(3) [OF k f])
  have "unat p \<le> 2 ^ 63"
    unfolding d(1) by (rule align_up_valid(4) [OF k f])
  then have "unat p + unat sz < 2 ^ 64"
    using sz by simp
  then have s: "unat (p + sz) = unat p + unat sz"
    using unat_add_lem [of p sz] by simp
  show "unat p + unat sz \<le> unat (begin_r r) + unat (cap r)"
    using d(2) by (simp add: word_le_nat_alt s unat_end_region [OF v])
  show "unat (free r') = unat p + unat sz"
    by (simp add: d(3) s)
qed

lemma region_alloc_preserves_valid:
  assumes v: "valid_region r" and k: "k < 64" and sz: "unat sz < 2 ^ 63"
  shows "valid_region (snd (region_alloc r sz (2 ^ k)))"
proof (cases "fst (region_alloc r sz (2 ^ k))")
  case None
  then show ?thesis
    using v by (simp add: region_alloc_None)
next
  case (Some p)
  then have ra: "region_alloc r sz (2 ^ k) = (Some p, snd (region_alloc r sz (2 ^ k)))"
    by (metis prod.collapse)
  note a = region_alloc_valid [OF v k sz ra]
  show ?thesis
    using v a by (simp add: valid_region_def region_alloc_fields)
qed

section \<open>Chains of regions\<close>

lemma chain_cong_heap:
  assumes "\<forall>q \<in> set ps. map_option next_r (h' q) = map_option next_r (h q)"
  shows "chain h' p ps = chain h p ps"
  using assms
proof (induction ps arbitrary: p)
  case Nil
  show ?case by simp
next
  case (Cons q qs)
  have "map_option next_r (h' q) = map_option next_r (h q)"
    using Cons.prems by simp
  moreover have "\<And>p'. chain h' p' qs = chain h p' qs"
    using Cons.IH Cons.prems by simp
  ultimately show ?case
    by (cases "h q"; cases "h' q") auto
qed

lemma chain_snoc:
  assumes "chain h p ps" and "ps \<noteq> []" and "distinct ps" and "q \<notin> set ps" and "q \<noteq> NULL"
    and "\<forall>x \<in> set (butlast ps). map_option next_r (h' x) = map_option next_r (h x)"
    and "map_option next_r (h' (last ps)) = Some q"
    and "map_option next_r (h' q) = Some NULL"
  shows "chain h' p (ps @ [q])"
  using assms
proof (induction ps arbitrary: p)
  case Nil
  then show ?case by simp
next
  case (Cons x xs)
  show ?case
  proof (cases xs)
    case Nil
    with Cons.prems show ?thesis
      by (auto split: option.splits)
  next
    case (Cons y ys)
    obtain r where r: "h x = Some r" and c: "chain h (next_r r) xs" and px: "p = x" "x \<noteq> NULL"
      using Cons.prems(1) by (auto split: option.splits)
    have "map_option next_r (h' x) = map_option next_r (h x)"
      using Cons.prems(6) Cons by simp
    then obtain r' where r': "h' x = Some r'" "next_r r' = next_r r"
      using r by auto
    have "chain h' (next_r r) (xs @ [q])"
      using c Cons.prems Cons by (intro Cons.IH) auto
    then show ?thesis
      using r' px by simp
  qed
qed

lemma chain_last:
  assumes "chain h p ps" and "ps \<noteq> []"
  shows "\<exists>r. h (last ps) = Some r \<and> next_r r = NULL \<and> last ps \<noteq> NULL"
  using assms
proof (induction ps arbitrary: p)
  case Nil
  then show ?case by simp
next
  case (Cons x xs)
  then show ?case
    by (cases xs) (auto split: option.splits)
qed

lemma release_loop_chain:
  assumes "chain h p ps" and "distinct ps"
  shows "arena_release_loop h p rs = Inr (h |` (- set ps))"
  using assms
proof (induction ps arbitrary: h p)
  case Nil
  then show ?case by simp
next
  case (Cons x xs)
  obtain r where r: "h x = Some r" and c: "chain h (next_r r) xs" and px: "p = x" "x \<noteq> NULL"
    using Cons.prems(1) by (auto split: option.splits)
  have "chain (region_release h x rs) (next_r r) xs"
    using c Cons.prems(2) by (subst chain_cong_heap [where h = h]) (auto simp: region_release_def)
  then have "arena_release_loop (region_release h x rs) (next_r r) rs
      = Inr (region_release h x rs |` (- set xs))"
    using Cons.prems(2) by (intro Cons.IH) simp_all
  moreover have "region_release h x rs |` (- set xs) = h |` (- set (x # xs))"
    by (auto simp: region_release_def restrict_map_def fun_eq_iff)
  ultimately show ?case
    using r px by simp
qed

section \<open>The arena invariant\<close>

declare arena_release_loop.simps [simp del]

lemma unat_sizeof: "unat sizeof_region_t = 32"
  by (simp add: sizeof_region_t_def)

lemma new_region_valid:
  assumes m: "unat page + unat rs \<le> 2 ^ 63" and rs: "sizeof_region_t \<le> rs"
  shows "region_of rs page (region_init (rs - (page + sizeof_region_t - page)) (page + sizeof_region_t))"
proof -
  have rs32: "32 \<le> unat rs"
    using rs by (simp add: word_le_nat_alt unat_sizeof)
  have "unat page + unat sizeof_region_t < 2 ^ 64"
    using m rs32 by (simp add: unat_sizeof)
  then have b: "unat (page + sizeof_region_t) = unat page + 32"
    using unat_add_lem [of page sizeof_region_t] by (simp add: unat_sizeof)
  have c: "unat (rs - sizeof_region_t) = unat rs - 32"
    using rs by (simp add: unat_sub unat_sizeof)
  have "page + sizeof_region_t \<noteq> 0"
    using b by (metis add_is_0 unat_eq_zero zero_neq_numeral)
  then show ?thesis
    using m rs32 b c by (simp add: region_of_def valid_region_def region_init_def NULL_def)
qed

lemma arena_init_open:
  assumes "mmap_ok page rs h0" and "sizeof_region_t \<le> rs"
  shows "\<exists>s. arena_init page (a0, h0) rs = Inr s \<and> region_size (fst s) = rs \<and>
    arena_open s [page]"
proof -
  have m: "unat page + unat rs \<le> 2 ^ 63" and p: "page \<noteq> MAP_FAILED" "page \<noteq> NULL"
    using assms(1) by (simp_all add: mmap_ok_def)
  note new_region_valid [OF m assms(2)]
  then show ?thesis
    using p
    by (simp add: arena_init_def alloc_new_region_def Let_def arena_open_def region_init_def)
qed

lemma arena_init_inv:
  assumes "mmap_ok page rs h0" and "sizeof_region_t \<le> rs"
    and "arena_init page (a0, h0) rs = Inr s"
  shows "arena_inv s"
proof -
  have "unat rs \<le> 2 ^ 63"
    using assms(1) by (simp add: mmap_ok_def)
  moreover have "region_size (fst s) = rs" and "arena_open s [page]"
    using arena_init_open [OF assms(1,2), of a0] assms(3) by auto
  ultimately show ?thesis
    using assms(2) unfolding arena_inv_def by blast
qed

lemma arena_alloc_closed:
  "current a = NULL \<Longrightarrow> arena_alloc page (a, h) sz align = Inr (None, a, h)"
  by (simp add: arena_alloc_def)

lemma arena_alloc_too_large:
  "region_size a - sizeof_region_t < sz \<Longrightarrow> arena_alloc page (a, h) sz align = Inr (None, a, h)"
  by (simp add: arena_alloc_def)

lemma arena_alloc_has_space:
  assumes "current a \<noteq> NULL" and "sz \<le> region_size a - sizeof_region_t"
    and "h (current a) = Some cur" and "region_has_space cur sz align"
  shows "arena_alloc page (a, h) sz align =
    Inr (fst (region_alloc cur sz align), a, h(current a \<mapsto> snd (region_alloc cur sz align)))"
  using assms by (auto simp: arena_alloc_def split: prod.splits)

lemma arena_alloc_grow:
  assumes "current a \<noteq> NULL" and "sz \<le> region_size a - sizeof_region_t"
    and "h (current a) = Some cur" and "\<not> region_has_space cur sz align"
    and "page \<noteq> MAP_FAILED" and "page \<noteq> current a"
  shows "arena_alloc page (a, h) sz align =
    Inr (fst (region_alloc (fresh_region page (region_size a)) sz align),
         a\<lparr>current := page, region_count := region_count a + 1\<rparr>,
         h(current a \<mapsto> cur\<lparr>next_r := page\<rparr>,
           page \<mapsto> snd (region_alloc (fresh_region page (region_size a)) sz align)))"
  using assms
  by (auto simp: arena_alloc_def alloc_new_region_def fresh_region_def Let_def split: prod.splits)

lemma region_has_space_iff:
  "region_has_space r sz align \<longleftrightarrow> fst (region_alloc r sz align) \<noteq> None"
  by (simp add: region_has_space_def region_alloc_def Let_def)

lemma region_of_alloc:
  assumes "region_of rs q r" and "k < 64" and "unat sz < 2 ^ 63"
  shows "region_of rs q (snd (region_alloc r sz (2 ^ k)))"
  using assms region_alloc_preserves_valid [of r k sz]
  by (simp add: region_of_def region_alloc_fields)

lemma region_of_next [simp]:
  "region_of rs q (r\<lparr>next_r := x\<rparr>) = region_of rs q r"
  by (simp add: region_of_def valid_region_def)

lemma fresh_region_of:
  assumes "unat page + unat rs \<le> 2 ^ 63" and "sizeof_region_t \<le> rs"
  shows "region_of rs page (fresh_region page rs)"
  using new_region_valid [OF assms] by (simp add: fresh_region_def)

lemma fresh_region_next [simp]: "next_r (fresh_region page rs) = NULL"
  by (simp add: fresh_region_def region_init_def)

lemma arena_open_current:
  assumes "arena_open (a, h) ps"
  shows "\<exists>cur. h (current a) = Some cur \<and> region_of (region_size a) (current a) cur \<and>
    next_r cur = NULL \<and> current a \<noteq> NULL"
proof -
  have ps: "ps \<noteq> []" and c: "chain h (start a) ps" and l: "last ps = current a"
    and r: "\<forall>q \<in> set ps. case h q of None \<Rightarrow> False | Some r \<Rightarrow> region_of (region_size a) q r"
    using assms by (simp_all add: arena_open_def)
  obtain cur where cur: "h (last ps) = Some cur" "next_r cur = NULL" "last ps \<noteq> NULL"
    using chain_last [OF c ps] by blast
  moreover have "last ps \<in> set ps"
    using ps by simp
  then have "region_of (region_size a) (last ps) cur"
    using r cur(1) by (auto split: option.splits)
  ultimately show ?thesis
    using l by auto
qed

lemma sz_bound:
  assumes "sizeof_region_t \<le> rs" and "unat rs \<le> 2 ^ 63" and "sz \<le> rs - sizeof_region_t"
  shows "unat sz < 2 ^ 63"
proof -
  have "unat (rs - sizeof_region_t) = unat rs - 32"
    using assms(1) by (simp add: unat_sub unat_sizeof)
  moreover have "32 \<le> unat rs"
    using assms(1) by (simp add: word_le_nat_alt unat_sizeof)
  ultimately show ?thesis
    using assms(2,3) by (simp add: word_le_nat_alt)
qed

lemma arena_openI:
  assumes "ps \<noteq> []" and "chain h (start a) ps" and "distinct ps" and "last ps = current a"
    and "region_count a = of_nat (length ps)"
    and "\<forall>q \<in> set ps. case h q of None \<Rightarrow> False | Some r \<Rightarrow> region_of (region_size a) q r"
  shows "arena_open (a, h) ps"
  using assms by (simp add: arena_open_def)

lemma arena_open_has_space:
  assumes o: "arena_open (a, h) ps" and cur: "h (current a) = Some cur"
    and k: "k < 64" and sz: "unat sz < 2 ^ 63"
  shows "arena_open (a, h(current a \<mapsto> snd (region_alloc cur sz (2 ^ k)))) ps"
proof -
  let ?h = "h(current a \<mapsto> snd (region_alloc cur sz (2 ^ k)))"
  have ps: "ps \<noteq> []" and c: "chain h (start a) ps" and l: "last ps = current a"
    and d: "distinct ps" and n: "region_count a = of_nat (length ps)"
    and r: "\<forall>q \<in> set ps. case h q of None \<Rightarrow> False | Some r \<Rightarrow> region_of (region_size a) q r"
    using o by (simp_all add: arena_open_def)
  have "\<forall>q \<in> set ps. map_option next_r (?h q) = map_option next_r (h q)"
    using cur by (simp add: region_alloc_fields)
  then have "chain ?h (start a) ps = chain h (start a) ps"
    by (rule chain_cong_heap)
  then have "chain ?h (start a) ps"
    using c by blast
  moreover have "\<forall>q \<in> set ps. case ?h q of None \<Rightarrow> False | Some r \<Rightarrow> region_of (region_size a) q r"
  proof
    fix q assume q: "q \<in> set ps"
    show "case ?h q of None \<Rightarrow> False | Some r \<Rightarrow> region_of (region_size a) q r"
    proof (cases "q = current a")
      case True
      have "region_of (region_size a) (current a) cur"
        using r q True cur by (auto split: option.splits)
      then show ?thesis
        using True region_of_alloc [OF _ k sz] by simp
    next
      case False
      then show ?thesis
        using r q by simp
    qed
  qed
  ultimately show ?thesis
    using ps l d n by (intro arena_openI)
qed

lemma arena_open_grow:
  assumes o: "arena_open (a, h) ps" and cur: "h (current a) = Some cur"
    and k: "k < 64" and sz: "unat sz < 2 ^ 63"
    and m: "mmap_ok page (region_size a) h" and rs: "sizeof_region_t \<le> region_size a"
  shows "arena_open
    (a\<lparr>current := page, region_count := region_count a + 1\<rparr>,
     h(current a \<mapsto> cur\<lparr>next_r := page\<rparr>,
       page \<mapsto> snd (region_alloc (fresh_region page (region_size a)) sz (2 ^ k))))
    (ps @ [page])"
proof -
  let ?new = "snd (region_alloc (fresh_region page (region_size a)) sz (2 ^ k))"
  let ?h = "h(current a \<mapsto> cur\<lparr>next_r := page\<rparr>, page \<mapsto> ?new)"
  let ?a = "a\<lparr>current := page, region_count := region_count a + 1\<rparr>"
  have ps: "ps \<noteq> []" and c: "chain h (start a) ps" and l: "last ps = current a"
    and d: "distinct ps" and n: "region_count a = of_nat (length ps)"
    and r: "\<forall>q \<in> set ps. case h q of None \<Rightarrow> False | Some r \<Rightarrow> region_of (region_size a) q r"
    using o by (simp_all add: arena_open_def)
  have pg: "page \<noteq> NULL" "h page = None" "unat page + unat (region_size a) \<le> 2 ^ 63"
    using m by (simp_all add: mmap_ok_def)
  have notin: "page \<notin> set ps"
    using r pg(2) by (auto split: option.splits)
  have pc: "page \<noteq> current a"
    using cur pg(2) by auto
  have "\<forall>x \<in> set (butlast ps). map_option next_r (?h x) = map_option next_r (h x)"
  proof
    fix x assume x: "x \<in> set (butlast ps)"
    then have "x \<in> set ps"
      by (rule in_set_butlastD)
    then have "x \<noteq> page"
      using notin by auto
    moreover have "x \<noteq> last ps"
      using x d ps by (metis append_butlast_last_id distinct_append disjoint_iff list.set_intros(1))
    ultimately show "map_option next_r (?h x) = map_option next_r (h x)"
      using l by simp
  qed
  moreover have "map_option next_r (?h (last ps)) = Some page"
    using l pc by simp
  moreover have "map_option next_r (?h page) = Some NULL"
    by (simp add: region_alloc_fields)
  ultimately have "chain ?h (start a) (ps @ [page])"
    using c ps d notin pg(1) by (intro chain_snoc [where h = h])
  then have "chain ?h (start ?a) (ps @ [page])"
    by simp
  moreover have "\<forall>q \<in> set (ps @ [page]).
      case ?h q of None \<Rightarrow> False | Some r \<Rightarrow> region_of (region_size ?a) q r"
  proof
    fix q assume q: "q \<in> set (ps @ [page])"
    consider "q = page" | "q = current a" "q \<noteq> page" | "q \<in> set ps" "q \<noteq> current a" "q \<noteq> page"
      using q by auto
    then show "case ?h q of None \<Rightarrow> False | Some r \<Rightarrow> region_of (region_size ?a) q r"
    proof cases
      case 1
      then show ?thesis
        using region_of_alloc [OF fresh_region_of [OF pg(3) rs] k sz] by simp
    next
      case 2
      have "current a \<in> set ps"
        using l ps by (metis last_in_set)
      then have "region_of (region_size a) (current a) cur"
        using r cur by (auto split: option.splits)
      then show ?thesis
        using 2 by simp
    next
      case 3
      then show ?thesis
        using r by (auto split: option.splits)
    qed
  qed
  moreover have "ps @ [page] \<noteq> []" and "distinct (ps @ [page])"
    and "last (ps @ [page]) = current ?a"
    and "region_count ?a = of_nat (length (ps @ [page]))"
    using d notin n by simp_all
  ultimately show ?thesis
    by (intro arena_openI)
qed

lemma region_alloc_in_region:
  assumes v: "valid_region r" and k: "k < 64" and sz: "unat sz < 2 ^ 63"
    and ra: "region_alloc r sz (2 ^ k) = (Some p, r')"
  shows "unat p mod 2 ^ k = 0"
    and "unat (begin_r r') \<le> unat p"
    and "unat p + unat sz \<le> unat (begin_r r') + unat (cap r')"
    and "p \<noteq> NULL"
proof -
  note a = region_alloc_valid [OF v k sz ra]
  have f: "begin_r r' = begin_r r" "cap r' = cap r"
    using region_alloc_fields(1,2) [of r sz "2 ^ k"] ra by simp_all
  show "unat p mod 2 ^ k = 0"
    by (rule a(2))
  show b: "unat (begin_r r') \<le> unat p"
    using v a(1) f by (simp add: valid_region_def)
  show "unat p + unat sz \<le> unat (begin_r r') + unat (cap r')"
    using a(3) f by simp
  have "0 < unat (begin_r r)"
    using v by (simp add: valid_region_def NULL_def unat_gt_0)
  then have "0 < unat p"
    using b f by simp
  then show "p \<noteq> NULL"
    by (simp add: NULL_def unat_gt_0)
qed

lemma arena_alloc_open:
  assumes o: "arena_open (a, h) ps"
    and rs: "sizeof_region_t \<le> region_size a" "unat (region_size a) \<le> 2 ^ 63"
    and m: "mmap_ok page (region_size a) h" and k: "k < 64"
  shows "\<exists>p a' h'. arena_alloc page (a, h) sz (2 ^ k) = Inr (p, a', h') \<and>
    region_size a' = region_size a \<and>
    (arena_open (a', h') ps \<or> arena_open (a', h') (ps @ [page])) \<and>
    (\<forall>q. p = Some q \<longrightarrow>
       (\<exists>r. h' (current a') = Some r \<and> unat q mod 2 ^ k = 0 \<and> unat (begin_r r) \<le> unat q \<and>
          unat q + unat sz \<le> unat (begin_r r) + unat (cap r) \<and> q \<noteq> NULL))"
proof -
  obtain cur where cur: "h (current a) = Some cur"
    and ro: "region_of (region_size a) (current a) cur" and cn: "current a \<noteq> NULL"
    using arena_open_current [OF o] by blast
  have vcur: "valid_region cur"
    using ro by (simp add: region_of_def)
  show ?thesis
  proof (cases "region_size a - sizeof_region_t < sz")
    case True
    then show ?thesis
      using o by (simp add: arena_alloc_too_large)
  next
    case False
    then have le: "sz \<le> region_size a - sizeof_region_t"
      by simp
    have sz: "unat sz < 2 ^ 63"
      by (rule sz_bound [OF rs le])
    show ?thesis
    proof (cases "region_has_space cur sz (2 ^ k)")
      case True
      let ?ra = "region_alloc cur sz (2 ^ k)"
      have res: "arena_alloc page (a, h) sz (2 ^ k) = Inr (fst ?ra, a, h(current a \<mapsto> snd ?ra))"
        by (rule arena_alloc_has_space [where a = a and h = h and cur = cur, OF cn le cur True])
      have op: "arena_open (a, h(current a \<mapsto> snd ?ra)) ps"
        by (rule arena_open_has_space [OF o cur k sz])
      have "\<exists>r. (h(current a \<mapsto> snd ?ra)) (current a) = Some r \<and> unat q mod 2 ^ k = 0 \<and>
          unat (begin_r r) \<le> unat q \<and>
          unat q + unat sz \<le> unat (begin_r r) + unat (cap r) \<and> q \<noteq> NULL"
        if "fst ?ra = Some q" for q
      proof -
        have "?ra = (Some q, snd ?ra)"
          using that by (metis prod.collapse)
        from region_alloc_in_region [OF vcur k sz this] show ?thesis
          by simp
      qed
      then show ?thesis
        using res op by simp
    next
      case False
      let ?rb = "region_alloc (fresh_region page (region_size a)) sz (2 ^ k)"
      let ?a = "a\<lparr>current := page, region_count := region_count a + 1\<rparr>"
      let ?h = "h(current a \<mapsto> cur\<lparr>next_r := page\<rparr>, page \<mapsto> snd ?rb)"
      have pg: "page \<noteq> MAP_FAILED" "h page = None" "unat page + unat (region_size a) \<le> 2 ^ 63"
        using m by (simp_all add: mmap_ok_def)
      have pc: "page \<noteq> current a"
        using cur pg(2) by auto
      have res: "arena_alloc page (a, h) sz (2 ^ k) = Inr (fst ?rb, ?a, ?h)"
        by (rule arena_alloc_grow [where a = a and h = h and cur = cur, OF cn le cur False pg(1) pc])
      have op: "arena_open (?a, ?h) (ps @ [page])"
        by (rule arena_open_grow [OF o cur k sz m rs(1)])
      have vf: "valid_region (fresh_region page (region_size a))"
        using fresh_region_of [OF pg(3) rs(1)] by (simp add: region_of_def)
      have "\<exists>r. ?h (current ?a) = Some r \<and> unat q mod 2 ^ k = 0 \<and>
          unat (begin_r r) \<le> unat q \<and>
          unat q + unat sz \<le> unat (begin_r r) + unat (cap r) \<and> q \<noteq> NULL"
        if "fst ?rb = Some q" for q
      proof -
        have "?rb = (Some q, snd ?rb)"
          using that by (metis prod.collapse)
        from region_alloc_in_region [OF vf k sz this] show ?thesis
          by simp
      qed
      then show ?thesis
        using res op by simp
    qed
  qed
qed

lemma is_pow2D: "is_pow2 align \<Longrightarrow> \<exists>k<64. align = 2 ^ k"
  by (auto simp: is_pow2_def)

lemma arena_release_open:
  assumes "arena_open (a, h) ps"
  shows "arena_release (a, h) =
    Inr (a\<lparr>start := NULL, current := NULL, region_count := 0\<rparr>, h |` (- set ps))"
proof -
  have "chain h (start a) ps" and "distinct ps"
    using assms by (simp_all add: arena_open_def)
  then have "arena_release_loop h (start a) (region_size a) = Inr (h |` (- set ps))"
    by (rule release_loop_chain)
  then show ?thesis
    by (simp add: arena_release_def)
qed

lemma arena_release_no_start:
  assumes "start a = NULL"
  shows "arena_release (a, h) = Inr (a\<lparr>start := NULL, current := NULL, region_count := 0\<rparr>, h)"
  using assms by (simp add: arena_release_def arena_release_loop.simps)

lemma arena_release_closed:
  assumes "arena_closed a"
  shows "arena_release (a, h) = Inr (a, h)"
  using assms by (simp add: arena_release_no_start arena_closed_def)

lemma arena_inv_release:
  assumes "arena_inv s"
  shows "\<exists>h'. arena_release s =
      Inr ((fst s)\<lparr>start := NULL, current := NULL, region_count := 0\<rparr>, h') \<and>
    arena_inv ((fst s)\<lparr>start := NULL, current := NULL, region_count := 0\<rparr>, h')"
proof -
  obtain a h where s: "s = (a, h)"
    by (cases s)
  have inv': "arena_inv (a\<lparr>start := NULL, current := NULL, region_count := 0\<rparr>, h')" for h'
    using assms by (simp add: s arena_inv_def arena_closed_def)
  consider "arena_closed a" | ps where "arena_open (a, h) ps"
    using assms by (auto simp: s arena_inv_def)
  then show ?thesis
  proof cases
    case 1
    then have "start a = NULL"
      by (simp add: arena_closed_def)
    then show ?thesis
      using inv' by (simp add: s arena_release_no_start)
  next
    case 2
    then show ?thesis
      using inv' by (simp add: s arena_release_open)
  qed
qed

lemma arena_inv_alloc:
  assumes inv: "arena_inv s" and m: "mmap_ok page (region_size (fst s)) (snd s)"
    and al: "is_pow2 align"
  shows "\<exists>p s'. arena_alloc page s sz align = Inr (p, s') \<and> arena_inv s'"
proof -
  obtain a h where s: "s = (a, h)"
    by (cases s)
  obtain k where k: "k < 64" "align = 2 ^ k"
    using is_pow2D [OF al] by blast
  have rs: "sizeof_region_t \<le> region_size a" "unat (region_size a) \<le> 2 ^ 63"
    using inv by (simp_all add: s arena_inv_def)
  consider "arena_closed a" | ps where "arena_open (a, h) ps"
    using inv by (auto simp: s arena_inv_def)
  then show ?thesis
  proof cases
    case 1
    then have "arena_alloc page s sz align = Inr (None, s)"
      by (simp add: s arena_alloc_closed arena_closed_def)
    then show ?thesis
      using inv by simp
  next
    case 2
    have m': "mmap_ok page (region_size a) h"
      using m by (simp add: s)
    obtain p a' h' where r: "arena_alloc page (a, h) sz (2 ^ k) = Inr (p, a', h')"
      "region_size a' = region_size a"
      "arena_open (a', h') ps \<or> arena_open (a', h') (ps @ [page])"
      using arena_alloc_open [OF 2 rs m' k(1), of sz] by blast
    have "arena_inv (a', h')"
      using r(2,3) rs unfolding arena_inv_def by auto
    then show ?thesis
      using r(1) by (simp add: s k(2))
  qed
qed

lemma reachable_inv:
  assumes "reachable s"
  shows "arena_inv s"
  using assms
proof (induction rule: reachable.induct)
  case (init page rs h0 a0 s)
  then show ?case
    by (rule arena_init_inv)
next
  case (alloc s page align sz p s')
  from arena_inv_alloc [OF alloc.IH alloc.hyps(2,3), of sz] alloc.hyps(4) show ?case
    by auto
next
  case (release s s')
  from arena_inv_release [OF release.IH] release.hyps(2) show ?case
    by auto
qed

section \<open>Facts about the states of the self-tests\<close>

lemma test_arena_init: "arena_init 0x10000 (blank_arena, Map.empty) 40 = Inr test_arena_state"
  by (simp add: arena_init_def alloc_new_region_def region_init_def blank_arena_def test_arena_state_def
      MAP_FAILED_def sizeof_region_t_def NULL_def Let_def)

lemma test_region_init: "region_init 10 0x1000 = test_region_state"
  by (simp add: region_init_def test_region_state_def NULL_def)

lemma is_pow2_numerals: "is_pow2 1" "is_pow2 2" "is_pow2 4" "is_pow2 8" "is_pow2 16" "is_pow2 64"
  unfolding is_pow2_def
  by (rule bexI [of _ 0], simp, simp, rule bexI [of _ 1], simp, simp, rule bexI [of _ 2], simp, simp,
      rule bexI [of _ 3], simp, simp, rule bexI [of _ 4], simp, simp, rule bexI [of _ 6], simp, simp)

lemma test_region_valid: "valid_region test_region_state"
  by (simp add: valid_region_def test_region_state_def NULL_def)

lemma test_arena_reachable: "reachable test_arena_state"
proof (rule reachable.init [OF _ _ test_arena_init])
  show "mmap_ok 0x10000 40 Map.empty"
    by (simp add: mmap_ok_def MAP_FAILED_def NULL_def)
  show "sizeof_region_t \<le> 40"
    by (simp add: sizeof_region_t_def)
qed

lemma test_arena_mmap: "mmap_ok 0x20000 (region_size (fst test_arena_state)) (snd test_arena_state)"
  by (simp add: mmap_ok_def MAP_FAILED_def NULL_def test_arena_state_def)

lemma valid_region_free_le:
  assumes "valid_region r"
  shows "free r \<le> begin_r r + cap r"
  using assms unat_end_region [OF assms] by (simp add: word_le_nat_alt valid_region_def)

lemma valid_region_sz:
  assumes "valid_region r" and "sz \<le> cap r"
  shows "unat sz < 2 ^ 63"
proof -
  have "0 < unat (begin_r r)"
    using assms(1) by (simp add: valid_region_def NULL_def unat_gt_0)
  moreover have "unat sz \<le> unat (cap r)"
    using assms(2) by (simp add: word_le_nat_alt)
  moreover have "unat (begin_r r) + unat (cap r) \<le> 2 ^ 63"
    using assms(1) by (simp add: valid_region_def)
  ultimately show ?thesis
    by linarith
qed

lemma align_up_nonnull:
  assumes v: "valid_region r" and k: "k < 64"
  shows "align_up (free r) (2 ^ k) \<noteq> NULL"
proof -
  have f: "unat (free r) \<le> 2 ^ 63"
    using v by (simp add: valid_region_def)
  have "0 < unat (begin_r r)"
    using v by (simp add: valid_region_def NULL_def unat_gt_0)
  then have "0 < unat (free r)"
    using v by (simp add: valid_region_def)
  then have "0 < unat (align_up (free r) (2 ^ k))"
    using align_up_valid(1) [OF k f] by linarith
  then show ?thesis
    by (simp add: NULL_def unat_gt_0)
qed

section \<open>Further facts used by the claims\<close>

lemma too_large_math:
  assumes "sizeof_region_t \<le> rs"
  shows "rs - sizeof_region_t < sz \<longleftrightarrow> unat rs - 32 < unat sz"
  using assms by (simp add: word_less_nat_alt unat_sub unat_sizeof)

lemma test_arena_release:
  "arena_release test_arena_state =
     Inr (\<lparr>start = 0, current = 0, region_size = 40, region_count = 0\<rparr>, Map.empty)"
  by (simp add: arena_release_def test_arena_state_def arena_release_loop.simps region_release_def
      NULL_def)

lemma align_up_one [simp]: "align_up a 1 = a"
  by (simp add: align_up_def)

lemma region_alloc_zero:
  assumes "free r \<le> begin_r r + cap r"
  shows "region_alloc r 0 1 = (Some (free r), r)"
  using assms by (simp add: region_alloc_def Let_def)

lemma arena_alloc_zero:
  assumes "current a \<noteq> NULL" and "h (current a) = Some cur"
    and "free cur \<le> begin_r cur + cap cur"
  shows "arena_alloc page (a, h) 0 1 = Inr (Some (free cur), a, h)"
proof -
  have "region_has_space cur 0 1"
    using assms(3) by (simp add: region_has_space_def Let_def)
  moreover have "0 \<le> region_size a - sizeof_region_t"
    by simp
  ultimately have "arena_alloc page (a, h) 0 1 =
      Inr (fst (region_alloc cur 0 1), a, h(current a \<mapsto> snd (region_alloc cur 0 1)))"
    using assms(1,2) by (intro arena_alloc_has_space)
  moreover have "h(current a \<mapsto> cur) = h"
    using assms(2) by (rule map_upd_triv)
  ultimately show ?thesis
    by (simp add: region_alloc_zero [OF assms(3)])
qed

lemma arena_alloc_seq_zero:
  assumes "current a \<noteq> NULL" and "h (current a) = Some cur"
    and "free cur \<le> begin_r cur + cap cur"
  shows "arena_alloc_seq (a, h) (map (\<lambda>page. (page, 0, 1)) pages) =
    Inr (replicate (length pages) (Some (free cur)), a, h)"
  by (induction pages)
    (simp_all add: arena_alloc_zero [where a = a and h = h and cur = cur, OF assms])

lemma region_alloc_cursor_mono:
  assumes v: "valid_region r" and k: "k < 64" and sz: "unat sz < 2 ^ 63"
  shows "unat (free r) \<le> unat (free (snd (region_alloc r sz (2 ^ k))))"
proof (cases "fst (region_alloc r sz (2 ^ k))")
  case None
  then show ?thesis
    by (simp add: region_alloc_None)
next
  case (Some p)
  then have ra: "region_alloc r sz (2 ^ k) = (Some p, snd (region_alloc r sz (2 ^ k)))"
    by (metis prod.collapse)
  note a = region_alloc_valid [OF v k sz ra]
  show ?thesis
    using a(1,4) by simp
qed

lemma alloc_seq_ordered:
  assumes "valid_region r"
    and "\<forall>(sz, align) \<in> set reqs. is_pow2 align \<and> unat sz < 2 ^ 63"
  shows "sorted_wrt (\<lambda>(p1, s1) (p2, s2). unat p1 + unat s1 \<le> unat p2) (alloc_seq r reqs) \<and>
    (\<forall>(p, s) \<in> set (alloc_seq r reqs). unat (free r) \<le> unat p)"
  using assms
proof (induction reqs arbitrary: r)
  case Nil
  show ?case by simp
next
  case (Cons req reqs)
  obtain sz align where req: "req = (sz, align)"
    by (cases req)
  obtain k where k: "k < 64" "align = 2 ^ k"
    using Cons.prems(2) is_pow2D by (auto simp: req)
  have sz: "unat sz < 2 ^ 63"
    using Cons.prems(2) by (simp add: req)
  let ?r' = "snd (region_alloc r sz (2 ^ k))"
  have v': "valid_region ?r'"
    by (rule region_alloc_preserves_valid [OF Cons.prems(1) k(1) sz])
  have rest: "\<forall>(sz, align) \<in> set reqs. is_pow2 align \<and> unat sz < 2 ^ 63"
    using Cons.prems(2) by simp
  note IH = Cons.IH [OF v' rest]
  have mono: "unat (free r) \<le> unat (free ?r')"
    by (rule region_alloc_cursor_mono [OF Cons.prems(1) k(1) sz])
  show ?case
  proof (cases "fst (region_alloc r sz (2 ^ k))")
    case None
    then have "alloc_seq r (req # reqs) = alloc_seq ?r' reqs"
      by (simp add: req k(2) case_prod_beta)
    then show ?thesis
      using IH mono by (auto simp: case_prod_beta)
  next
    case (Some p)
    then have ra: "region_alloc r sz (2 ^ k) = (Some p, ?r')"
      by (metis prod.collapse)
    note a = region_alloc_valid [OF Cons.prems(1) k(1) sz ra]
    have "alloc_seq r (req # reqs) = (p, sz) # alloc_seq ?r' reqs"
      using Some by (simp add: req k(2) case_prod_beta)
    then show ?thesis
      using IH a(1,4) mono by (auto simp: case_prod_beta)
  qed
qed

lemma arena_alloc_grow_count:
  assumes "current a \<noteq> NULL" and "sz \<le> region_size a - sizeof_region_t"
    and "h (current a) = Some cur" and "\<not> region_has_space cur sz align"
    and "page \<noteq> MAP_FAILED" and "h page = None"
    and "arena_alloc page (a, h) sz align = Inr (p, a', h')"
  shows "region_count a' = region_count a + 1" and "current a' = page"
    and "dom h' = insert page (dom h)"
    and "p = fst (region_alloc (fresh_region page (region_size a)) sz align)"
proof -
  have pc: "page \<noteq> current a"
    using assms(3,6) by auto
  note g = arena_alloc_grow [where a = a and h = h and cur = cur, OF assms(1-5) pc]
  show "region_count a' = region_count a + 1" and "current a' = page"
    and "p = fst (region_alloc (fresh_region page (region_size a)) sz align)"
    using g assms(7) by simp_all
  have "h' = h(current a \<mapsto> cur\<lparr>next_r := page\<rparr>,
           page \<mapsto> snd (region_alloc (fresh_region page (region_size a)) sz align))"
    using g assms(7) by simp
  then show "dom h' = insert page (dom h)"
    using assms(3) by auto
qed

lemma page_sized_arena_fails:
  "arena_init 0x10000 (blank_arena, Map.empty) 4096 =
     Inr (\<lparr>start = 0x10000, current = 0x10000, region_size = 4096, region_count = 1\<rparr>,
          [0x10000 \<mapsto> \<lparr>next_r = 0, cap = 4064, free = 0x10020, begin_r = 0x10020\<rparr>]) \<and>
   arena_alloc 0x20000
     (\<lparr>start = 0x10000, current = 0x10000, region_size = 4096, region_count = 1\<rparr>,
      [0x10000 \<mapsto> \<lparr>next_r = 0, cap = 4064, free = 0x10020, begin_r = 0x10020\<rparr>]) 4064 64 =
     Inr (None,
          \<lparr>start = 0x10000, current = 0x20000, region_size = 4096, region_count = 2\<rparr>,
          [0x10000 \<mapsto> \<lparr>next_r = 0x20000, cap = 4064, free = 0x10020, begin_r = 0x10020\<rparr>,
           0x20000 \<mapsto> \<lparr>next_r = 0, cap = 4064, free = 0x20020, begin_r = 0x20020\<rparr>])"
  by (simp add: arena_init_def arena_alloc_def blank_arena_def region_has_space_def
      region_alloc_def alloc_new_region_def region_init_def align_up_def NULL_def MAP_FAILED_def
      sizeof_region_t_def Let_def)

lemma grow_succeeds_small_align:
  assumes "current a \<noteq> NULL" and "sz \<le> region_size a - sizeof_region_t"
    and "h (current a) = Some cur" and "\<not> region_has_space cur sz align"
    and "mmap_ok page (region_size a) h" and "sizeof_region_t \<le> region_size a"
    and "align_up (page + sizeof_region_t) align = page + sizeof_region_t"
  shows "\<exists>a' h'. arena_alloc page (a, h) sz align = Inr (Some (page + sizeof_region_t), a', h')"
proof -
  have pg: "page \<noteq> MAP_FAILED" "h page = None" "unat page + unat (region_size a) \<le> 2 ^ 63"
    using assms(5) by (simp_all add: mmap_ok_def)
  have pc: "page \<noteq> current a"
    using assms(3) pg(2) by auto
  note g = arena_alloc_grow [where a = a and h = h and cur = cur, OF assms(1-4) pg(1) pc]
  have ro: "region_of (region_size a) page (fresh_region page (region_size a))"
    by (rule fresh_region_of [OF pg(3) assms(6)])
  have b: "begin_r (fresh_region page (region_size a)) = page + sizeof_region_t"
    "free (fresh_region page (region_size a)) = page + sizeof_region_t"
    "cap (fresh_region page (region_size a)) = region_size a - sizeof_region_t"
    by (simp_all add: fresh_region_def region_init_def)
  have v: "valid_region (fresh_region page (region_size a))"
    using ro by (simp add: region_of_def)
  have "unat (page + sizeof_region_t) + unat sz \<le>
      unat (page + sizeof_region_t) + unat (region_size a - sizeof_region_t)"
    using assms(2) by (simp add: word_le_nat_alt)
  moreover have "unat (page + sizeof_region_t) + unat (region_size a - sizeof_region_t) \<le> 2 ^ 63"
    using v by (simp add: valid_region_def b)
  ultimately have "unat (page + sizeof_region_t) + unat sz < 2 ^ 64"
    by simp
  then have "unat (page + sizeof_region_t + sz) = unat (page + sizeof_region_t) + unat sz"
    using unat_add_lem [of "page + sizeof_region_t" sz] by simp
  moreover have "unat (page + sizeof_region_t + (region_size a - sizeof_region_t)) =
      unat (page + sizeof_region_t) + unat (region_size a - sizeof_region_t)"
    using unat_end_region [OF v] by (simp add: b)
  ultimately have "page + sizeof_region_t + sz \<le>
      page + sizeof_region_t + (region_size a - sizeof_region_t)"
    using assms(2) by (simp add: word_le_nat_alt)
  then have "fst (region_alloc (fresh_region page (region_size a)) sz align) =
      Some (page + sizeof_region_t)"
    using assms(7) by (simp add: region_alloc_def b Let_def)
  then show ?thesis
    using g by simp
qed

lemma arena_alloc_seq_closed:
  assumes "current a = NULL"
  shows "arena_alloc_seq (a, h) reqs = Inr (map (\<lambda>_. None) reqs, a, h)"
  by (induction reqs) (auto simp: arena_alloc_closed [OF assms])

lemma small_arena_init: "arena_init 0x10000 (blank_arena, Map.empty) 16 = Inr small_arena_state"
  by (simp add: arena_init_def alloc_new_region_def region_init_def blank_arena_def
      small_arena_state_def small_region_state_def MAP_FAILED_def sizeof_region_t_def NULL_def
      Let_def)

lemma null_cursor_reached:
  "region_alloc test_region_state (- 0x1000) 1 = (Some 0x1000, null_cursor_state)"
  by (simp add: test_region_state_def null_cursor_state_def region_alloc_def align_up_def Let_def)

lemma no_wrap_free_le:
  assumes "unat (begin_r r) + unat (cap r) < 2 ^ 64"
    and "unat (free r) \<le> unat (begin_r r) + unat (cap r)"
  shows "free r \<le> begin_r r + cap r"
proof -
  have "unat (begin_r r + cap r) = unat (begin_r r) + unat (cap r)"
    using assms(1) unat_add_lem [of "begin_r r" "cap r"] by simp
  then show ?thesis
    using assms(2) by (simp add: word_le_nat_alt)
qed

lemma too_large_int:
  assumes "sizeof_region_t \<le> rs"
    and "int (unat rs) - int (unat sizeof_region_t) < int (unat sz)"
  shows "rs - sizeof_region_t < sz"
proof -
  have "32 \<le> unat rs"
    using assms(1) by (simp add: word_le_nat_alt unat_sizeof)
  moreover have "int (unat rs) - 32 < int (unat sz)"
    using assms(2) by (simp only: unat_sizeof)
  ultimately have "unat rs - 32 < unat sz"
    by linarith
  then show ?thesis
    using too_large_math [OF assms(1)] by simp
qed

lemma region_has_space_eq:
  "region_has_space r sz align \<longleftrightarrow> \<not> align_up (free r) align + sz > begin_r r + cap r"
  by (simp add: region_has_space_def Let_def)

lemma region_alloc_no_space:
  assumes "\<not> region_has_space r sz align"
  shows "region_alloc r sz align = (None, r)"
  using assms unfolding region_has_space_eq by (simp add: region_alloc_def Let_def)

lemma region_alloc_space:
  assumes "region_has_space r sz align"
  shows "region_alloc r sz align =
    (Some (align_up (free r) align), r\<lparr>free := align_up (free r) align + sz\<rparr>)"
  using assms unfolding region_has_space_eq by (simp add: region_alloc_def Let_def)

lemma ptr_of_region_alloc:
  "ptr_of (fst (region_alloc r sz align)) =
     (if region_has_space r sz align then align_up (free r) align else NULL)"
  by (simp add: region_alloc_space region_alloc_no_space ptr_of_def)

section \<open>Claims\<close>

text \<open>
  C1. For every size and every power-of-two alignment: when \<^verbatim>\<open>arena_alloc\<close> returns a
  pointer on a reachable arena state, the size is at most
  \<^verbatim>\<open>region_size - sizeof(region_t)\<close>, the pointer is a multiple of the alignment, it is
  not null, and the block of \<open>sz\<close> bytes that starts there lies inside
  \<open>[begin, begin + cap)\<close> of the region that is current after the call. The same holds
  for \<^verbatim>\<open>region_alloc\<close> on a valid region when the size is at most the capacity, which
  is \<^verbatim>\<open>region_size - sizeof(region_t)\<close> for the regions of an arena.
\<close>

theorem alloc_aligned_inside_region:
  "(reachable s \<and> mmap_ok page (region_size (fst s)) (snd s) \<and> is_pow2 align \<and>
    arena_alloc page s sz align = Inr (Some p, a', h') \<longrightarrow>
      sz \<le> region_size (fst s) - sizeof_region_t \<and>
      unat p mod unat align = 0 \<and> p \<noteq> NULL \<and>
      (\<exists>r. h' (current a') = Some r \<and> unat (begin_r r) \<le> unat p \<and>
         unat p + unat sz \<le> unat (begin_r r) + unat (cap r))) \<and>
   (valid_region r \<and> is_pow2 align' \<and> sz' \<le> cap r \<and>
    region_alloc r sz' align' = (Some q, r') \<longrightarrow>
      unat q mod unat align' = 0 \<and> q \<noteq> NULL \<and> begin_r r' = begin_r r \<and> cap r' = cap r \<and>
      unat (begin_r r) \<le> unat q \<and> unat q + unat sz' \<le> unat (begin_r r) + unat (cap r))"
proof (intro conjI impI)
  assume asm: "reachable s \<and> mmap_ok page (region_size (fst s)) (snd s) \<and> is_pow2 align \<and>
    arena_alloc page s sz align = Inr (Some p, a', h')"
  obtain a h where s: "s = (a, h)"
    by (cases s)
  obtain k where k: "k < 64" "align = 2 ^ k"
    using asm is_pow2D by blast
  have inv: "arena_inv (a, h)"
    using asm reachable_inv by (simp add: s)
  have rs: "sizeof_region_t \<le> region_size a" "unat (region_size a) \<le> 2 ^ 63"
    using inv by (simp_all add: arena_inv_def)
  have m: "mmap_ok page (region_size a) h"
    using asm by (simp add: s)
  have res: "arena_alloc page (a, h) sz (2 ^ k) = Inr (Some p, a', h')"
    using asm by (simp add: s k(2))
  have "\<not> arena_closed a"
    using res by (auto simp: arena_closed_def arena_alloc_closed)
  then obtain ps where "arena_open (a, h) ps"
    using inv by (auto simp: arena_inv_def)
  from arena_alloc_open [OF this rs m k(1), of sz] res
  have "\<exists>r. h' (current a') = Some r \<and> unat p mod 2 ^ k = 0 \<and> unat (begin_r r) \<le> unat p \<and>
          unat p + unat sz \<le> unat (begin_r r) + unat (cap r) \<and> p \<noteq> NULL"
    by auto
  moreover have "\<not> region_size a - sizeof_region_t < sz"
    using res by (auto simp: arena_alloc_too_large)
  ultimately show "sz \<le> region_size (fst s) - sizeof_region_t"
    and "unat p mod unat align = 0" and "p \<noteq> NULL"
    and "\<exists>r. h' (current a') = Some r \<and> unat (begin_r r) \<le> unat p \<and>
         unat p + unat sz \<le> unat (begin_r r) + unat (cap r)"
    using unat_pow2 [OF k(1)] by (auto simp: k(2) s)
next
  assume asm: "valid_region r \<and> is_pow2 align' \<and> sz' \<le> cap r \<and>
    region_alloc r sz' align' = (Some q, r')"
  obtain k where k: "k < 64" "align' = 2 ^ k"
    using asm is_pow2D by blast
  have v: "valid_region r" and ra: "region_alloc r sz' (2 ^ k) = (Some q, r')"
    using asm by (simp_all add: k(2))
  have sz: "unat sz' < 2 ^ 63"
    using asm valid_region_sz by blast
  note i = region_alloc_in_region [OF v k(1) sz ra]
  have f: "begin_r r' = begin_r r" "cap r' = cap r"
    using region_alloc_fields(1,2) [of r sz' "2 ^ k"] ra by simp_all
  show "unat q mod unat align' = 0" and "q \<noteq> NULL" and "begin_r r' = begin_r r"
    and "cap r' = cap r" and "unat (begin_r r) \<le> unat q"
    and "unat q + unat sz' \<le> unat (begin_r r) + unat (cap r)"
    using i f unat_pow2 [OF k(1)] by (simp_all add: k(2))
qed

theorem alloc_aligned_inside_region_witness:
  "reachable test_arena_state \<and> mmap_ok 0x20000 (region_size (fst test_arena_state)) (snd test_arena_state) \<and>
   is_pow2 8 \<and>
   arena_alloc 0x20000 test_arena_state 5 8 =
     Inr (Some 0x10020,
          \<lparr>start = 0x10000, current = 0x10000, region_size = 40, region_count = 1\<rparr>,
          [0x10000 \<mapsto> \<lparr>next_r = 0, cap = 8, free = 0x10025, begin_r = 0x10020\<rparr>]) \<and>
   unat (0x10020 :: addr) mod unat (8 :: addr) = 0 \<and>
   valid_region test_region_state \<and> is_pow2 4 \<and> 3 \<le> cap test_region_state \<and>
   region_alloc test_region_state 3 4 = (Some 0x1000, test_region_state\<lparr>free := 0x1003\<rparr>) \<and>
   unat (0x1000 :: addr) + unat (3 :: addr) \<le> unat (begin_r test_region_state) + unat (cap test_region_state)"
proof -
  have 1: "arena_alloc 0x20000 test_arena_state 5 8 =
     Inr (Some 0x10020,
          \<lparr>start = 0x10000, current = 0x10000, region_size = 40, region_count = 1\<rparr>,
          [0x10000 \<mapsto> \<lparr>next_r = 0, cap = 8, free = 0x10025, begin_r = 0x10020\<rparr>])"
    by (simp add: arena_alloc_def test_arena_state_def region_has_space_def region_alloc_def
        align_up_def NULL_def sizeof_region_t_def Let_def)
  have 2: "region_alloc test_region_state 3 4 = (Some 0x1000, test_region_state\<lparr>free := 0x1003\<rparr>)"
    by (simp add: test_region_state_def region_alloc_def align_up_def Let_def)
  have 3: "3 \<le> cap test_region_state"
    by (simp add: test_region_state_def)
  from alloc_aligned_inside_region [of test_arena_state "0x20000" 8 5 "0x10020" _ _ test_region_state 4 3
      "0x1000" "test_region_state\<lparr>free := 0x1003\<rparr>"]
    test_arena_reachable test_arena_mmap is_pow2_numerals test_region_valid 1 2 3
  show ?thesis
    by simp
qed

text \<open>
  C2. The claim: when the current region lacks space, \<^verbatim>\<open>arena_alloc\<close> creates one region,
  adds one to \<^verbatim>\<open>region_count\<close>, and the allocation in the new region succeeds. The code
  does the first two and not the third: the guard of \<^verbatim>\<open>arena_alloc\<close> compares the size
  alone with the capacity and leaves the padding of \<^verbatim>\<open>align_up\<close> out. In the arena of
  the self-test (8 bytes of capacity per region, blocks at offset 32 of a page), a
  request of 5 bytes aligned to 64 passes the guard, finds no space, gets a second
  region, and fails there as well; the same request again maps a third region and
  fails again.
\<close>

theorem grow_then_fail:
  "reachable test_arena_state \<and> is_pow2 64 \<and>
   mmap_ok 0x20000 (region_size (fst test_arena_state)) (snd test_arena_state) \<and>
   5 \<le> region_size (fst test_arena_state) - sizeof_region_t \<and>
   arena_alloc 0x20000 test_arena_state 5 64 =
     Inr (None,
          \<lparr>start = 0x10000, current = 0x20000, region_size = 40, region_count = 2\<rparr>,
          [0x10000 \<mapsto> \<lparr>next_r = 0x20000, cap = 8, free = 0x10020, begin_r = 0x10020\<rparr>,
           0x20000 \<mapsto> \<lparr>next_r = 0, cap = 8, free = 0x20020, begin_r = 0x20020\<rparr>]) \<and>
   arena_alloc 0x30000
     (\<lparr>start = 0x10000, current = 0x20000, region_size = 40, region_count = 2\<rparr>,
      [0x10000 \<mapsto> \<lparr>next_r = 0x20000, cap = 8, free = 0x10020, begin_r = 0x10020\<rparr>,
       0x20000 \<mapsto> \<lparr>next_r = 0, cap = 8, free = 0x20020, begin_r = 0x20020\<rparr>]) 5 64 =
     Inr (None,
          \<lparr>start = 0x10000, current = 0x30000, region_size = 40, region_count = 3\<rparr>,
          [0x10000 \<mapsto> \<lparr>next_r = 0x20000, cap = 8, free = 0x10020, begin_r = 0x10020\<rparr>,
           0x20000 \<mapsto> \<lparr>next_r = 0x30000, cap = 8, free = 0x20020, begin_r = 0x20020\<rparr>,
           0x30000 \<mapsto> \<lparr>next_r = 0, cap = 8, free = 0x30020, begin_r = 0x30020\<rparr>])"
  using test_arena_reachable is_pow2_numerals(6) test_arena_mmap
  by (simp add: arena_alloc_def test_arena_state_def region_has_space_def region_alloc_def
      alloc_new_region_def region_init_def align_up_def NULL_def MAP_FAILED_def
      sizeof_region_t_def Let_def)

text \<open>
  C3. The claim: the blocks that successful \<^verbatim>\<open>region_alloc\<close> calls on one region return
  do not overlap and come in non-decreasing address order. The sum \<^verbatim>\<open>start + size\<close> of
  the bound check wraps around for a size close to \<open>2 ^ 64\<close>: on the 10-byte region of the
  self-test a request of \<open>2 ^ 64 - 1\<close> bytes returns \<open>0x1000\<close>, the next one-byte request
  returns the lower address \<open>0xFFF\<close>, and the third returns \<open>0x1000\<close> again, inside the
  first block. (\<open>alloc_seq_ordered\<close> above is the claim for sizes below \<open>2 ^ 63\<close>.)
\<close>

theorem huge_size_breaks_order:
  "valid_region test_region_state \<and> is_pow2 1 \<and>
   alloc_seq test_region_state [(- 1, 1), (1, 1), (1, 1)] =
     [(0x1000, - 1), (0xFFF, 1), (0x1000, 1)]"
  using test_region_valid is_pow2_numerals(1)
  by (simp add: test_region_state_def region_alloc_def align_up_def Let_def)

text \<open>
  C4. The claim as stated, with \<^verbatim>\<open>region_size - sizeof(region_t)\<close> read as a number, fails
  on an arena whose region size is below the header size: the code computes the
  difference on unsigned words, where it wraps around, so on the arena of
  \<^verbatim>\<open>arena_init(&a, 16)\<close> a request of 1 byte exceeds \<open>16 - 32\<close>, passes the guard, and
  maps a second region (the last theorem of this claim evaluates it). Amended: for
  every arena whose region size is at least \<^verbatim>\<open>sizeof(region_t)\<close> and every request whose
  size exceeds the number \<^verbatim>\<open>region_size - sizeof(region_t)\<close>, \<^verbatim>\<open>arena_alloc\<close> returns
  null, \<^verbatim>\<open>region_count\<close> and the two region pointers keep their values, and the store
  is the same: no region is created, whatever \<^verbatim>\<open>mmap\<close> would have returned.
\<close>

theorem too_large_request_fails:
  assumes "sizeof_region_t \<le> region_size a"
    and "int (unat (region_size a)) - int (unat sizeof_region_t) < int (unat sz)"
  shows "\<exists>a' h'. arena_alloc page (a, h) sz align = Inr (None, a', h') \<and>
    region_count a' = region_count a \<and> start a' = start a \<and> current a' = current a \<and> h' = h"
  using too_large_int [OF assms] by (simp add: arena_alloc_too_large)

theorem too_large_request_fails_witness:
  "sizeof_region_t \<le> region_size (fst test_arena_state) \<and>
   int (unat (region_size (fst test_arena_state))) - int (unat sizeof_region_t) < int (unat (9 :: addr)) \<and>
   (\<exists>a' h'. arena_alloc 0x20000 test_arena_state 9 16 = Inr (None, a', h') \<and>
      region_count a' = region_count (fst test_arena_state) \<and>
      start a' = start (fst test_arena_state) \<and>
      current a' = current (fst test_arena_state) \<and> h' = snd test_arena_state)"
proof -
  have 1: "sizeof_region_t \<le> region_size (fst test_arena_state)"
    by (simp add: test_arena_state_def sizeof_region_t_def)
  have 2: "int (unat (region_size (fst test_arena_state))) - int (unat sizeof_region_t)
      < int (unat (9 :: addr))"
    by (simp add: test_arena_state_def sizeof_region_t_def)
  from too_large_request_fails [OF 1 2, of "0x20000" "snd test_arena_state" 16] 1 2
  show ?thesis
    by simp
qed

theorem too_large_small_region_counterexample:
  "arena_init 0x10000 (blank_arena, Map.empty) 16 = Inr small_arena_state \<and>
   int (unat (region_size (fst small_arena_state))) - int (unat sizeof_region_t) < int (unat (1 :: addr)) \<and>
   arena_alloc 0x20000 small_arena_state 1 1 =
     Inr (None,
          \<lparr>start = 0x10000, current = 0x20000, region_size = 16, region_count = 2\<rparr>,
          [0x10000 \<mapsto> \<lparr>next_r = 0x20000, cap = - 16, free = 0x10020, begin_r = 0x10020\<rparr>,
           0x20000 \<mapsto> \<lparr>next_r = 0, cap = - 16, free = 0x20020, begin_r = 0x20020\<rparr>]) \<and>
   region_count \<lparr>start = 0x10000, current = 0x20000, region_size = 16, region_count = 2 :: addr\<rparr> \<noteq>
     region_count (fst small_arena_state)"
  using small_arena_init
  by (simp add: arena_alloc_def small_arena_state_def small_region_state_def region_has_space_def
      region_alloc_def alloc_new_region_def region_init_def align_up_def NULL_def MAP_FAILED_def
      sizeof_region_t_def Let_def)

text \<open>
  C5. On every reachable arena state \<^verbatim>\<open>arena_release\<close> returns. After it,
  \<^verbatim>\<open>region_count\<close> is 0, \<^verbatim>\<open>start\<close> and \<^verbatim>\<open>current\<close> are null, and every
  \<^verbatim>\<open>arena_alloc\<close>, for any size and alignment, returns null and leaves the arena as it
  is, so every sequence of further calls returns null throughout. The result is the same
  for every store, the empty one included, where any access to a header would end the
  process: the call reads no header.
\<close>

theorem release_closes_arena:
  "(reachable s \<longrightarrow> (\<exists>a' h'. arena_release s = Inr (a', h'))) \<and>
   (arena_release s = Inr (a', h') \<longrightarrow>
      region_count a' = 0 \<and> start a' = NULL \<and> current a' = NULL \<and>
      (\<forall>page h'' sz align. arena_alloc page (a', h'') sz align = Inr (None, a', h'')) \<and>
      (\<forall>h'' reqs. arena_alloc_seq (a', h'') reqs = Inr (map (\<lambda>_. None) reqs, a', h'')))"
proof (intro conjI impI)
  assume "reachable s"
  then have "arena_inv s"
    by (rule reachable_inv)
  from arena_inv_release [OF this] show "\<exists>a' h'. arena_release s = Inr (a', h')"
    by blast
next
  assume r: "arena_release s = Inr (a', h')"
  then have a': "a' = (fst s)\<lparr>start := NULL, current := NULL, region_count := 0\<rparr>"
    by (cases s) (auto simp: arena_release_def split: sum.splits)
  show "region_count a' = 0" and "start a' = NULL" and c: "current a' = NULL"
    by (simp_all add: a')
  show "\<forall>page h'' sz align. arena_alloc page (a', h'') sz align = Inr (None, a', h'')"
    using c by (simp add: arena_alloc_closed)
  show "\<forall>h'' reqs. arena_alloc_seq (a', h'') reqs = Inr (map (\<lambda>_. None) reqs, a', h'')"
    using c by (simp add: arena_alloc_seq_closed)
qed

theorem release_closes_arena_witness:
  "reachable test_arena_state \<and>
   arena_release test_arena_state =
     Inr (\<lparr>start = 0, current = 0, region_size = 40, region_count = 0\<rparr>, Map.empty) \<and>
   region_count \<lparr>start = 0, current = 0, region_size = 40, region_count = 0 :: addr\<rparr> = 0 \<and>
   arena_alloc 0x20000 (\<lparr>start = 0, current = 0, region_size = 40, region_count = 0\<rparr>, Map.empty) 2 2 =
     Inr (None, \<lparr>start = 0, current = 0, region_size = 40, region_count = 0\<rparr>, Map.empty)"
proof -
  from release_closes_arena [of test_arena_state
      "\<lparr>start = 0, current = 0, region_size = 40, region_count = 0\<rparr>" Map.empty]
    test_arena_reachable test_arena_release
  show ?thesis
    by simp
qed

text \<open>
  C6. The claim as stated fails on a region whose aligned candidate address is the null
  address: there \<^verbatim>\<open>region_has_space\<close> is true and \<^verbatim>\<open>region_alloc\<close> grants the request,
  but the pointer it returns is \<^verbatim>\<open>(void *)0\<close>, which is \<^verbatim>\<open>NULL\<close> to the caller
  (the last theorem of this claim evaluates it, on a region one \<^verbatim>\<open>region_alloc\<close> call
  away from the region of the self-test). Amended: for every region, size and alignment
  for which \<open>align_up (free r) align\<close> is not the null address, and so for every valid
  region with a power-of-two alignment, \<^verbatim>\<open>region_has_space\<close> is true exactly when
  \<^verbatim>\<open>region_alloc\<close> on the same region returns a non-null pointer. For every region a
  non-null pointer implies \<^verbatim>\<open>region_has_space\<close> and is the aligned address; both
  functions compare the same \<open>align_up (free r) align + sz\<close> with \<open>begin + cap\<close>;
  \<^verbatim>\<open>region_alloc\<close> takes the granting path, which sets the cursor to the aligned address
  plus the size, exactly when \<^verbatim>\<open>region_has_space\<close> is true, and otherwise returns null
  and leaves the region as it is. \<^verbatim>\<open>region_has_space\<close> assigns to no field, so its
  model is a function from the header to a truth value and has no header to return.
\<close>

theorem has_space_iff_alloc_succeeds:
  "(align_up (free r) align \<noteq> NULL \<longrightarrow>
      (region_has_space r sz align \<longleftrightarrow> ptr_of (fst (region_alloc r sz align)) \<noteq> NULL)) \<and>
   (valid_region r \<and> is_pow2 align \<longrightarrow>
      align_up (free r) align \<noteq> NULL \<and>
      (region_has_space r sz align \<longleftrightarrow> ptr_of (fst (region_alloc r sz align)) \<noteq> NULL)) \<and>
   (ptr_of (fst (region_alloc r sz align)) \<noteq> NULL \<longrightarrow>
      region_has_space r sz align \<and>
      ptr_of (fst (region_alloc r sz align)) = align_up (free r) align) \<and>
   (region_has_space r sz align \<longleftrightarrow> \<not> align_up (free r) align + sz > begin_r r + cap r) \<and>
   (region_has_space r sz align \<longrightarrow>
      region_alloc r sz align =
        (Some (align_up (free r) align), r\<lparr>free := align_up (free r) align + sz\<rparr>)) \<and>
   (\<not> region_has_space r sz align \<longrightarrow> region_alloc r sz align = (None, r))"
proof -
  note p = ptr_of_region_alloc [of r sz align]
  have a: "region_has_space r sz align \<longleftrightarrow> ptr_of (fst (region_alloc r sz align)) \<noteq> NULL"
    if "align_up (free r) align \<noteq> NULL"
    using that unfolding p by (cases "region_has_space r sz align") simp_all
  have b: "align_up (free r) align \<noteq> NULL" if vp: "valid_region r \<and> is_pow2 align"
  proof -
    obtain k where k: "k < 64" "align = 2 ^ k"
      using vp is_pow2D by blast
    show ?thesis
      using vp align_up_nonnull [of r k] k by simp
  qed
  have c: "region_has_space r sz align \<and>
      ptr_of (fst (region_alloc r sz align)) = align_up (free r) align"
    if "ptr_of (fst (region_alloc r sz align)) \<noteq> NULL"
    using that unfolding p by (cases "region_has_space r sz align") simp_all
  show ?thesis
  proof (intro conjI impI)
    show "region_has_space r sz align \<longleftrightarrow> ptr_of (fst (region_alloc r sz align)) \<noteq> NULL"
      if "align_up (free r) align \<noteq> NULL"
      using that by (rule a)
    show "align_up (free r) align \<noteq> NULL" if "valid_region r \<and> is_pow2 align"
      using that by (rule b)
    show "region_has_space r sz align \<longleftrightarrow> ptr_of (fst (region_alloc r sz align)) \<noteq> NULL"
      if "valid_region r \<and> is_pow2 align"
      using that by (intro a b)
    show "region_has_space r sz align"
      and "ptr_of (fst (region_alloc r sz align)) = align_up (free r) align"
      if "ptr_of (fst (region_alloc r sz align)) \<noteq> NULL"
      using c [OF that] by simp_all
    show "region_has_space r sz align \<longleftrightarrow>
        \<not> align_up (free r) align + sz > begin_r r + cap r"
      by (rule region_has_space_eq)
    show "region_alloc r sz align =
        (Some (align_up (free r) align), r\<lparr>free := align_up (free r) align + sz\<rparr>)"
      if "region_has_space r sz align"
      using that by (rule region_alloc_space)
    show "region_alloc r sz align = (None, r)" if "\<not> region_has_space r sz align"
      using that by (rule region_alloc_no_space)
  qed
qed

theorem has_space_iff_alloc_succeeds_witness:
  "align_up (free test_region_state) 4 \<noteq> NULL \<and>
   valid_region test_region_state \<and> is_pow2 4 \<and>
   region_has_space test_region_state 3 4 \<and>
   ptr_of (fst (region_alloc test_region_state 3 4)) \<noteq> NULL \<and>
   ptr_of (fst (region_alloc test_region_state 3 4)) = align_up (free test_region_state) 4 \<and>
   \<not> region_has_space test_region_state 11 4 \<and>
   region_alloc test_region_state 11 4 = (None, test_region_state)"
proof -
  have 1: "align_up (free test_region_state) 4 \<noteq> NULL"
    by (simp add: test_region_state_def align_up_def NULL_def)
  have 2: "region_has_space test_region_state 3 4"
    by (simp add: region_has_space_def test_region_state_def align_up_def Let_def)
  have 3: "\<not> region_has_space test_region_state 11 4"
    by (simp add: region_has_space_def test_region_state_def align_up_def Let_def)
  note t3 = has_space_iff_alloc_succeeds [of test_region_state 4 3]
  note t11 = has_space_iff_alloc_succeeds [of test_region_state 4 11]
  have 4: "ptr_of (fst (region_alloc test_region_state 3 4)) \<noteq> NULL"
    using t3 1 2 by blast
  have 5: "ptr_of (fst (region_alloc test_region_state 3 4)) = align_up (free test_region_state) 4"
    using t3 4 by blast
  have 6: "region_alloc test_region_state 11 4 = (None, test_region_state)"
    using t11 3 by blast
  show ?thesis
    using 1 2 3 4 5 6 test_region_valid is_pow2_numerals(3) by blast
qed

theorem has_space_null_start_counterexample:
  "region_alloc test_region_state (- 0x1000) 1 = (Some 0x1000, null_cursor_state) \<and>
   is_pow2 4 \<and> region_has_space null_cursor_state 4 4 \<and>
   region_alloc null_cursor_state 4 4 = (Some 0, null_cursor_state\<lparr>free := 4\<rparr>) \<and>
   ptr_of (fst (region_alloc null_cursor_state 4 4)) = NULL"
  using null_cursor_reached is_pow2_numerals(3)
  by (simp add: null_cursor_state_def region_has_space_def region_alloc_def align_up_def
      ptr_of_def NULL_def Let_def)

text \<open>
  C7. The claim: every region operation keeps \<open>begin \<le> free\<close>, \<^verbatim>\<open>region_alloc\<close> never
  moves \<^verbatim>\<open>free\<close> backwards, and \<^verbatim>\<open>cap\<close> and \<^verbatim>\<open>begin\<close> never change. The last part
  holds for every call (\<open>region_alloc_fields\<close>), and the first two hold for sizes below
  \<open>2 ^ 63\<close> (\<open>region_alloc_preserves_valid\<close>, \<open>region_alloc_cursor_mono\<close>). For a size
  close to \<open>2 ^ 64\<close> the bound check wraps around, as in C3: on the region of the
  self-test a request of \<open>2 ^ 64 - 1\<close> bytes is granted and leaves \<^verbatim>\<open>free\<close> one byte
  below \<^verbatim>\<open>begin\<close>.
\<close>

theorem huge_size_moves_cursor_back:
  "valid_region test_region_state \<and> is_pow2 1 \<and>
   begin_r test_region_state \<le> free test_region_state \<and>
   region_alloc test_region_state (- 1) 1 = (Some 0x1000, test_region_state\<lparr>free := 0xFFF\<rparr>) \<and>
   free (snd (region_alloc test_region_state (- 1) 1)) < free test_region_state \<and>
   free (snd (region_alloc test_region_state (- 1) 1)) <
     begin_r (snd (region_alloc test_region_state (- 1) 1))"
  using test_region_valid is_pow2_numerals(1)
  by (simp add: test_region_state_def region_alloc_def align_up_def Let_def)

text \<open>
  C8. \<^verbatim>\<open>arena_release\<close> on a released arena (\<^verbatim>\<open>start\<close> and \<^verbatim>\<open>current\<close> null,
  \<^verbatim>\<open>region_count\<close> 0) returns the same arena and the same store: it unmaps nothing.
\<close>

theorem release_idempotent:
  assumes "start a = NULL" and "current a = NULL" and "region_count a = 0"
  shows "arena_release (a, h) = Inr (a, h)"
  using assms by (simp add: arena_release_closed arena_closed_def)

theorem release_idempotent_witness:
  "arena_release test_arena_state =
     Inr (\<lparr>start = 0, current = 0, region_size = 40, region_count = 0\<rparr>, Map.empty) \<and>
   arena_release (\<lparr>start = 0, current = 0, region_size = 40, region_count = 0\<rparr>, Map.empty) =
     Inr (\<lparr>start = 0, current = 0, region_size = 40, region_count = 0\<rparr>, Map.empty)"
proof -
  from release_idempotent
    [of "\<lparr>start = 0, current = 0, region_size = 40, region_count = 0\<rparr>" Map.empty]
    test_arena_release
  show ?thesis
    by (simp add: NULL_def)
qed

text \<open>
  C9. When \<^verbatim>\<open>arena_alloc\<close> returns null because \<^verbatim>\<open>current\<close> is null or because the
  size exceeds \<^verbatim>\<open>region_size - sizeof(region_t)\<close>, the arena and the store after the
  call are the arena and the store before it: all four fields of the arena and every
  field of every header.
\<close>

theorem failed_guards_keep_state:
  assumes "current a = NULL \<or> region_size a - sizeof_region_t < sz"
  shows "arena_alloc page (a, h) sz align = Inr (None, a, h)"
  using assms by (auto simp: arena_alloc_closed arena_alloc_too_large)

theorem failed_guards_keep_state_witness:
  "current blank_arena = NULL \<and>
   arena_alloc 0x20000 (blank_arena, Map.empty) 2 2 = Inr (None, blank_arena, Map.empty) \<and>
   region_size (fst test_arena_state) - sizeof_region_t < 9 \<and>
   arena_alloc 0x20000 (fst test_arena_state, snd test_arena_state) 9 16 =
     Inr (None, fst test_arena_state, snd test_arena_state)"
proof -
  have 1: "current blank_arena = NULL"
    by (simp add: blank_arena_def NULL_def)
  have 2: "region_size (fst test_arena_state) - sizeof_region_t < 9"
    by (simp add: test_arena_state_def sizeof_region_t_def)
  from failed_guards_keep_state [of blank_arena 2 "0x20000" Map.empty 2]
    failed_guards_keep_state [of "fst test_arena_state" 9 "0x20000" "snd test_arena_state" 16] 1 2
  show ?thesis
    by simp
qed

text \<open>
  C10. The claim as stated fails in two places, which the last theorem of this claim
  evaluates. On the open arena of
  \<^verbatim>\<open>arena_init(&a, 16)\<close> the capacity has wrapped around, the cursor is at most
  \<open>begin + cap\<close> as a number but the sum the code computes wraps, so
  \<^verbatim>\<open>region_alloc(region, 0, 1)\<close> returns null and \<^verbatim>\<open>arena_alloc(a, 0, 1)\<close> maps a new
  region. And on a region whose cursor is address 0 the pointer returned is the cursor,
  which is \<^verbatim>\<open>NULL\<close> to the caller. Amended: on every region whose block does not wrap
  around the address space (\<open>begin + cap < 2 ^ 64\<close> as numbers) and whose cursor is at
  most \<open>begin + cap\<close>, \<^verbatim>\<open>region_alloc(region, 0, 1)\<close> returns the cursor, a non-null
  pointer when the cursor is not null, and leaves the header as it is. On every open
  arena whose current region is such a region, and so on every reachable open arena
  (region size at least \<^verbatim>\<open>sizeof(region_t)\<close>), any number of \<^verbatim>\<open>arena_alloc(a, 0, 1)\<close>
  calls in a row all return the cursor of the current region, non-null on a reachable
  arena, and the arena and the store after them are those before them: no region is
  added.
\<close>

theorem zero_size_alloc:
  "(unat (begin_r r) + unat (cap r) < 2 ^ 64 \<and>
    unat (free r) \<le> unat (begin_r r) + unat (cap r) \<longrightarrow>
      region_alloc r 0 1 = (Some (free r), r) \<and>
      ptr_of (fst (region_alloc r 0 1)) = free r) \<and>
   (current a \<noteq> NULL \<and> h (current a) = Some cur \<and>
    unat (begin_r cur) + unat (cap cur) < 2 ^ 64 \<and>
    unat (free cur) \<le> unat (begin_r cur) + unat (cap cur) \<longrightarrow>
      arena_alloc_seq (a, h) (map (\<lambda>page. (page, 0, 1)) pages) =
        Inr (replicate (length pages) (Some (free cur)), a, h)) \<and>
   (reachable s \<and> current (fst s) \<noteq> NULL \<longrightarrow>
      (\<exists>c. snd s (current (fst s)) = Some c \<and> free c \<noteq> NULL \<and>
         arena_alloc_seq s (map (\<lambda>page. (page, 0, 1)) pages) =
           Inr (replicate (length pages) (Some (free c)), s)))"
proof (intro conjI impI)
  assume asm: "unat (begin_r r) + unat (cap r) < 2 ^ 64 \<and>
    unat (free r) \<le> unat (begin_r r) + unat (cap r)"
  then have "free r \<le> begin_r r + cap r"
    by (intro no_wrap_free_le) simp_all
  then show z: "region_alloc r 0 1 = (Some (free r), r)"
    by (rule region_alloc_zero)
  show "ptr_of (fst (region_alloc r 0 1)) = free r"
    by (simp add: z ptr_of_def)
next
  assume asm: "current a \<noteq> NULL \<and> h (current a) = Some cur \<and>
    unat (begin_r cur) + unat (cap cur) < 2 ^ 64 \<and>
    unat (free cur) \<le> unat (begin_r cur) + unat (cap cur)"
  then have c: "current a \<noteq> NULL" and cur: "h (current a) = Some cur"
    by simp_all
  have "free cur \<le> begin_r cur + cap cur"
    using asm by (intro no_wrap_free_le) simp_all
  then show "arena_alloc_seq (a, h) (map (\<lambda>page. (page, 0, 1)) pages) =
        Inr (replicate (length pages) (Some (free cur)), a, h)"
    by (rule arena_alloc_seq_zero [where a = a and h = h and cur = cur, OF c cur])
next
  assume asm: "reachable s \<and> current (fst s) \<noteq> NULL"
  obtain a h where s: "s = (a, h)"
    by (cases s)
  have inv: "arena_inv (a, h)" and c: "current a \<noteq> NULL"
    using asm reachable_inv by (auto simp: s)
  then obtain ps where "arena_open (a, h) ps"
    by (auto simp: arena_inv_def arena_closed_def)
  then obtain cur where cur: "h (current a) = Some cur"
    and ro: "region_of (region_size a) (current a) cur"
    using arena_open_current by blast
  have v: "valid_region cur"
    using ro by (simp add: region_of_def)
  have le: "free cur \<le> begin_r cur + cap cur"
    using v by (rule valid_region_free_le)
  have "0 < unat (begin_r cur)"
    using v by (simp add: valid_region_def NULL_def unat_gt_0)
  then have "0 < unat (free cur)"
    using v by (simp add: valid_region_def)
  then have nn: "free cur \<noteq> NULL"
    by (simp add: NULL_def unat_gt_0)
  from arena_alloc_seq_zero [where a = a and h = h and cur = cur and pages = pages, OF c cur le]
    cur nn
  show "\<exists>c. snd s (current (fst s)) = Some c \<and> free c \<noteq> NULL \<and>
         arena_alloc_seq s (map (\<lambda>page. (page, 0, 1)) pages) =
           Inr (replicate (length pages) (Some (free c)), s)"
    by (simp add: s)
qed

theorem zero_size_alloc_witness:
  "unat (begin_r test_region_state) + unat (cap test_region_state) < 2 ^ 64 \<and>
   unat (free test_region_state) \<le> unat (begin_r test_region_state) + unat (cap test_region_state) \<and>
   region_alloc test_region_state 0 1 = (Some 0x1000, test_region_state) \<and>
   reachable test_arena_state \<and> current (fst test_arena_state) \<noteq> NULL \<and>
   snd test_arena_state (current (fst test_arena_state)) =
     Some \<lparr>next_r = 0, cap = 8, free = 0x10020, begin_r = 0x10020\<rparr> \<and>
   arena_alloc_seq test_arena_state [(0x20000, 0, 1), (0x30000, 0, 1), (0x40000, 0, 1)] =
     Inr ([Some 0x10020, Some 0x10020, Some 0x10020], test_arena_state)"
proof -
  have 1: "current (fst test_arena_state) \<noteq> NULL"
    by (simp add: test_arena_state_def NULL_def)
  have 2: "unat (begin_r test_region_state) + unat (cap test_region_state) < 2 ^ 64"
    "unat (free test_region_state) \<le> unat (begin_r test_region_state) + unat (cap test_region_state)"
    by (simp_all add: test_region_state_def)
  have 3: "snd test_arena_state (current (fst test_arena_state)) =
     Some \<lparr>next_r = 0, cap = 8, free = 0x10020, begin_r = 0x10020\<rparr>"
    by (simp add: test_arena_state_def)
  have 4: "unat (begin_r \<lparr>next_r = 0, cap = 8, free = 0x10020, begin_r = 0x10020 :: addr\<rparr>) +
      unat (cap \<lparr>next_r = 0 :: addr, cap = 8 :: addr, free = 0x10020 :: addr, begin_r = 0x10020 :: addr\<rparr>) < 2 ^ 64"
    by simp
  from zero_size_alloc [of test_region_state "fst test_arena_state" "snd test_arena_state"
      "\<lparr>next_r = 0, cap = 8, free = 0x10020, begin_r = 0x10020\<rparr>"
      "[0x20000, 0x30000, 0x40000]" test_arena_state]
    test_arena_reachable 1 2 3 4
  show ?thesis
    by (simp add: test_region_state_def)
qed

theorem zero_size_small_region_counterexample:
  "arena_init 0x10000 (blank_arena, Map.empty) 16 = Inr small_arena_state \<and>
   snd small_arena_state (current (fst small_arena_state)) = Some small_region_state \<and>
   unat (free small_region_state) \<le> unat (begin_r small_region_state) + unat (cap small_region_state) \<and>
   region_alloc small_region_state 0 1 = (None, small_region_state) \<and>
   current (fst small_arena_state) \<noteq> NULL \<and>
   arena_alloc 0x20000 small_arena_state 0 1 =
     Inr (None,
          \<lparr>start = 0x10000, current = 0x20000, region_size = 16, region_count = 2\<rparr>,
          [0x10000 \<mapsto> \<lparr>next_r = 0x20000, cap = - 16, free = 0x10020, begin_r = 0x10020\<rparr>,
           0x20000 \<mapsto> \<lparr>next_r = 0, cap = - 16, free = 0x20020, begin_r = 0x20020\<rparr>]) \<and>
   region_alloc null_cursor_state 0 1 = (Some 0, null_cursor_state) \<and>
   ptr_of (fst (region_alloc null_cursor_state 0 1)) = NULL"
  using small_arena_init
  by (simp add: arena_alloc_def small_arena_state_def small_region_state_def
      null_cursor_state_def region_has_space_def region_alloc_def alloc_new_region_def
      region_init_def align_up_def ptr_of_def NULL_def MAP_FAILED_def sizeof_region_t_def Let_def)

end
